theory Spec2Isabelle
  imports Main
begin

section \<open>Data model of \<open>DungeonManager\<close>\<close>

text \<open>
  The source is one class, \<open>DungeonManager\<close> (src/main.cpp), whose member function
  \<open>runDungeon\<close> is run by \<open>max_instances\<close> threads, next to one thread running
  \<open>printLiveStatus\<close>; \<open>main\<close> reads and validates six integers and calls
  \<open>simulate\<close>.

  The three queue counters and \<open>parties_served\<close> are C++ \<open>int\<close>s. They are modelled
  as unbounded integers: a counter is only ever decremented, and only after the test of
  line 45 has found it large enough (lemma \<open>pool_inv_exec\<close> shows that every
  reachable value lies between zero and the validated initial value), and
  \<open>parties_served\<close> is bounded by the initial number of tanks (lemma
  \<open>tally_inv_exec\<close>), so no operation of the program can wrap. \<open>total_time\<close> is a
  \<open>std::chrono::duration\<close> of \<open>double\<close> that only ever receives whole seconds; it is
  modelled as the integer number of seconds.
\<close>

record Instance =
  is_active :: bool
  parties_served :: int
  total_time :: int

text \<open>The constructor arguments \<open>n, t, h, d, t1, t2\<close> (line 73).\<close>

record config =
  max_instances :: int
  tanks0 :: int
  healers0 :: int
  dps0 :: int
  min_time :: int
  max_time :: int

text \<open>
  The control point of a worker thread inside \<open>runDungeon\<close>; the number in a name is
  the source line of the statement the thread executes next. \<open>Parked\<close> and \<open>Woken\<close>
  are the two halves of a blocking \<open>cv.wait\<close>: \<open>cv.wait(lock, pred)\<close> is
  \<open>while (!pred()) wait(lock)\<close>, where \<open>wait\<close> releases the mutex, blocks until the
  thread is notified (or wakes spuriously) and takes the mutex again. The local variable
  \<open>run_time\<close> is carried by the control points at which it is live.
\<close>

datatype pc =
    Lock36
  | Wait39
  | Parked
  | Woken
  | Check45
  | Mark50
  | DecTank51
  | DecHealer52
  | DecDps53
  | Unlock55
  | Sample58
  | Sleep59 int
  | Relock62 int
  | Served63 int
  | Time64 int
  | Clear65
  | Notify68
  | EndIter69
  | Stopped

text \<open>The control point of the thread running \<open>printLiveStatus\<close>.\<close>

datatype mpc = MSleep96 | MCheck99 | MStopped

datatype thread = Worker nat | Monitor

text \<open>
  The shared state: the mutable members of \<open>DungeonManager\<close>, the owner of \<open>mtx\<close>,
  and the control points of the threads. \<open>notifications\<close> is an observer that counts
  the calls of \<open>cv.notify_one()\<close> made so far; no statement reads it.
\<close>

record state =
  tank_queue :: int
  healer_queue :: int
  dps_queue :: int
  instances :: "Instance list"
  mtx :: "thread option"
  pcs :: "pc list"
  mon :: mpc
  notifications :: nat

section \<open>The conditions of \<open>runDungeon\<close>\<close>

text \<open>Line 40: a full party can be taken from the queues.\<close>

definition party_available :: "state \<Rightarrow> bool" where
  "party_available s \<longleftrightarrow> tank_queue s > 0 \<and> healer_queue s > 0 \<and> dps_queue s \<ge> 3"

text \<open>Lines 41, 45 and 107: the termination condition.\<close>

definition no_more_parties :: "state \<Rightarrow> bool" where
  "no_more_parties s \<longleftrightarrow> tank_queue s = 0 \<or> healer_queue s = 0 \<or> dps_queue s < 3"

text \<open>Lines 39 to 42: the predicate handed to \<open>cv.wait\<close>.\<close>

definition wait_pred :: "state \<Rightarrow> bool" where
  "wait_pred s \<longleftrightarrow> party_available s \<or> no_more_parties s"

text \<open>Lines 99 to 105: no instance is active.\<close>

definition allInstancesEmpty :: "state \<Rightarrow> bool" where
  "allInstancesEmpty s \<longleftrightarrow> (\<forall>x \<in> set (instances s). \<not> is_active x)"

section \<open>Steps of the threads\<close>

text \<open>
  One scheduling decision: a thread executes its next statement. The statements whose
  outcome the state does not fix carry the outcome: \<open>Draw i r\<close> is worker \<open>i\<close>
  drawing \<open>run_time = r\<close> from \<open>time_dist\<close> (line 58), \<open>Signal i w\<close> is worker
  \<open>i\<close> calling \<open>cv.notify_one()\<close> (line 68), which unblocks the parked worker \<open>w\<close>,
  or nobody when no worker is parked; \<open>Spurious j\<close> is a spurious wake-up of the parked
  worker \<open>j\<close>; \<open>Observe\<close> is a step of the status thread.
\<close>

datatype action =
    Work nat
  | Draw nat int
  | Signal nat "nat option"
  | Spurious nat
  | Observe

definition goto :: "nat \<Rightarrow> pc \<Rightarrow> state \<Rightarrow> state" where
  "goto i p s = s\<lparr>pcs := (pcs s)[i := p]\<rparr>"

definition upd_instance :: "nat \<Rightarrow> (Instance \<Rightarrow> Instance) \<Rightarrow> state \<Rightarrow> state" where
  "upd_instance i f s = s\<lparr>instances := (instances s)[i := f (instances s ! i)]\<rparr>"

text \<open>
  The statements of \<open>runDungeon(i)\<close>, lines 35 to 69. Taking the mutex (lines 36 and
  62, and the second half of \<open>wait\<close>) is possible only while nobody owns it; the
  \<open>unique_lock\<close> releases it at \<open>lock.unlock()\<close> (line 55), at the \<open>return\<close> of
  line 46 and at the end of the loop body (line 69).
\<close>

definition work :: "nat \<Rightarrow> state \<Rightarrow> state option" where
  "work i s =
    (case pcs s ! i of
       Lock36 \<Rightarrow>
         if mtx s = None then Some (goto i Wait39 (s\<lparr>mtx := Some (Worker i)\<rparr>)) else None
     | Wait39 \<Rightarrow>
         if wait_pred s then Some (goto i Check45 s)
         else Some (goto i Parked (s\<lparr>mtx := None\<rparr>))
     | Parked \<Rightarrow> None
     | Woken \<Rightarrow>
         if mtx s = None then Some (goto i Wait39 (s\<lparr>mtx := Some (Worker i)\<rparr>)) else None
     | Check45 \<Rightarrow>
         if no_more_parties s then Some (goto i Stopped (s\<lparr>mtx := None\<rparr>))
         else Some (goto i Mark50 s)
     | Mark50 \<Rightarrow>
         Some (goto i DecTank51 (upd_instance i (\<lambda>x. x\<lparr>is_active := True\<rparr>) s))
     | DecTank51 \<Rightarrow> Some (goto i DecHealer52 (s\<lparr>tank_queue := tank_queue s - 1\<rparr>))
     | DecHealer52 \<Rightarrow> Some (goto i DecDps53 (s\<lparr>healer_queue := healer_queue s - 1\<rparr>))
     | DecDps53 \<Rightarrow> Some (goto i Unlock55 (s\<lparr>dps_queue := dps_queue s - 3\<rparr>))
     | Unlock55 \<Rightarrow> Some (goto i Sample58 (s\<lparr>mtx := None\<rparr>))
     | Sample58 \<Rightarrow> None
     | Sleep59 r \<Rightarrow> Some (goto i (Relock62 r) s)
     | Relock62 r \<Rightarrow>
         if mtx s = None then Some (goto i (Served63 r) (s\<lparr>mtx := Some (Worker i)\<rparr>))
         else None
     | Served63 r \<Rightarrow>
         Some (goto i (Time64 r)
                (upd_instance i (\<lambda>x. x\<lparr>parties_served := parties_served x + 1\<rparr>) s))
     | Time64 r \<Rightarrow>
         Some (goto i Clear65 (upd_instance i (\<lambda>x. x\<lparr>total_time := total_time x + r\<rparr>) s))
     | Clear65 \<Rightarrow>
         Some (goto i Notify68 (upd_instance i (\<lambda>x. x\<lparr>is_active := False\<rparr>) s))
     | Notify68 \<Rightarrow> None
     | EndIter69 \<Rightarrow> Some (goto i Lock36 (s\<lparr>mtx := None\<rparr>))
     | Stopped \<Rightarrow> None)"

text \<open>
  Line 58: \<open>time_dist\<close> is \<open>uniform_int_distribution(t1, t2)\<close>, so the value drawn
  lies in the closed interval from \<open>min_time\<close> to \<open>max_time\<close>. The workers share
  the generator and call it outside the mutex; the model takes every call to return a
  value of that interval, and leaves the choice of the value to the schedule.
\<close>

definition draw :: "config \<Rightarrow> nat \<Rightarrow> int \<Rightarrow> state \<Rightarrow> state option" where
  "draw cfg i r s =
    (if pcs s ! i = Sample58 \<and> min_time cfg \<le> r \<and> r \<le> max_time cfg
     then Some (goto i (Sleep59 r) s) else None)"

text \<open>
  Line 68: \<open>cv.notify_one()\<close> unblocks one of the threads blocked on \<open>cv\<close>, if there
  is one.
\<close>

definition signal :: "nat \<Rightarrow> nat option \<Rightarrow> state \<Rightarrow> state option" where
  "signal i w s =
    (if pcs s ! i \<noteq> Notify68 then None
     else case w of
       None \<Rightarrow>
         if Parked \<in> set (pcs s) then None
         else Some (goto i EndIter69 (s\<lparr>notifications := Suc (notifications s)\<rparr>))
     | Some j \<Rightarrow>
         if j < length (pcs s) \<and> pcs s ! j = Parked
         then Some (goto i EndIter69 (goto j Woken (s\<lparr>notifications := Suc (notifications s)\<rparr>)))
         else None)"

text \<open>
  \<open>printLiveStatus\<close>, lines 95 to 121: sleep, take the mutex (lines 96, 97); then
  either return (line 109) or print the snapshot (lines 112 to 120, which change no
  member) and start over; the \<open>unique_lock\<close> releases the mutex either way.
\<close>

definition observe :: "state \<Rightarrow> state option" where
  "observe s =
    (case mon s of
       MSleep96 \<Rightarrow>
         if mtx s = None then Some (s\<lparr>mtx := Some Monitor, mon := MCheck99\<rparr>) else None
     | MCheck99 \<Rightarrow>
         if no_more_parties s \<and> allInstancesEmpty s
         then Some (s\<lparr>mtx := None, mon := MStopped\<rparr>)
         else Some (s\<lparr>mtx := None, mon := MSleep96\<rparr>)
     | MStopped \<Rightarrow> None)"

text \<open>
  A step of the whole system; \<open>None\<close> when the chosen thread does not exist or cannot
  move (it is blocked on the mutex or on the condition variable, or it has returned).
\<close>

definition step :: "config \<Rightarrow> action \<Rightarrow> state \<Rightarrow> state option" where
  "step cfg a s =
    (case a of
       Work i \<Rightarrow> if i < length (pcs s) then work i s else None
     | Draw i r \<Rightarrow> if i < length (pcs s) then draw cfg i r s else None
     | Signal i w \<Rightarrow> if i < length (pcs s) then signal i w s else None
     | Spurious j \<Rightarrow>
         if j < length (pcs s) \<and> pcs s ! j = Parked then Some (goto j Woken s) else None
     | Observe \<Rightarrow> observe s)"

text \<open>A schedule is a list of scheduling decisions; it fails where a step is impossible.\<close>

primrec exec :: "config \<Rightarrow> action list \<Rightarrow> state \<Rightarrow> state option" where
  "exec cfg [] s = Some s"
| "exec cfg (a # as) s = (case step cfg a s of None \<Rightarrow> None | Some s' \<Rightarrow> exec cfg as s')"

text \<open>The thread that performs a step.\<close>

fun actor :: "action \<Rightarrow> thread" where
  "actor (Work i) = Worker i"
| "actor (Draw i r) = Worker i"
| "actor (Signal i w) = Worker i"
| "actor (Spurious j) = Worker j"
| "actor Observe = Monitor"

section \<open>Construction, \<open>simulate\<close> and \<open>main\<close>\<close>

definition new_instance :: Instance where
  "new_instance = \<lparr>is_active = False, parties_served = 0, total_time = 0\<rparr>"

text \<open>
  The constructor (lines 73 to 76) followed by the thread creation of \<open>simulate\<close>
  (lines 80 to 84): the status thread and one worker per instance, each at the first
  statement of its function. A thread that has not been created yet and a thread that has
  not been scheduled yet cannot be told apart, so all threads are present from the start.
  The construction of \<open>std::random_device\<close> and of the threads is taken to succeed.
\<close>

definition init :: "config \<Rightarrow> state" where
  "init cfg =
    \<lparr>tank_queue = tanks0 cfg, healer_queue = healers0 cfg, dps_queue = dps0 cfg,
     instances = replicate (nat (max_instances cfg)) new_instance,
     mtx = None,
     pcs = replicate (nat (max_instances cfg)) Lock36,
     mon = MSleep96,
     notifications = 0\<rparr>"

text \<open>Lines 86 to 90: every \<open>join\<close> returns once every thread has returned.\<close>

definition finished :: "state \<Rightarrow> bool" where
  "finished s \<longleftrightarrow> (\<forall>p \<in> set (pcs s). p = Stopped) \<and> mon s = MStopped"

text \<open>
  \<open>simulate\<close> under a schedule: the state that \<open>printSummary\<close> reports, or \<open>None\<close>
  when the schedule does not bring every thread to its end.
\<close>

definition simulate :: "config \<Rightarrow> action list \<Rightarrow> state option" where
  "simulate cfg sched =
    (case exec cfg sched (init cfg) of
       None \<Rightarrow> None
     | Some s \<Rightarrow> if finished s then Some s else None)"

text \<open>
  What \<open>main\<close> finds in \<open>input.txt\<close>: no file that can be opened, a file from which
  six integers cannot be extracted, or the six extracted \<open>int\<close> values.
\<close>

datatype input_file = Missing | Malformed | Values int int int int int int

datatype error = Unable_to_open | Error_reading | Invalid_values

text \<open>Lines 147 to 156 of \<open>main\<close>.\<close>

fun read_config :: "input_file \<Rightarrow> error + config" where
  "read_config Missing = Inl Unable_to_open"
| "read_config Malformed = Inl Error_reading"
| "read_config (Values n t h d t1 t2) =
    (if n \<le> 0 \<or> t < 0 \<or> h < 0 \<or> d < 0 \<or> t1 < 0 \<or> t2 < 0 \<or> t1 > t2 \<or> t2 > 15
     then Inl Invalid_values
     else Inr \<lparr>max_instances = n, tanks0 = t, healers0 = h, dps0 = d,
               min_time = t1, max_time = t2\<rparr>)"

text \<open>The configurations that pass the test of line 154.\<close>

definition valid_config :: "config \<Rightarrow> bool" where
  "valid_config cfg \<longleftrightarrow>
     \<not> (max_instances cfg \<le> 0 \<or> tanks0 cfg < 0 \<or> healers0 cfg < 0 \<or> dps0 cfg < 0 \<or>
        min_time cfg < 0 \<or> max_time cfg < 0 \<or> min_time cfg > max_time cfg \<or> max_time cfg > 15)"

text \<open>
  \<open>main\<close>, lines 143 to 166: the exit status, the error written to \<open>std::cerr\<close>
  by the \<open>catch\<close> block, and the state reported by \<open>simulate\<close> when a
  \<open>DungeonManager\<close> was constructed and run (\<open>None\<close> when the exception was
  thrown before line 158). The result is \<open>None\<close> when the schedule does not let
  \<open>simulate\<close> return.
\<close>

definition main :: "input_file \<Rightarrow> action list \<Rightarrow> (int \<times> error option \<times> state option) option" where
  "main inp sched =
    (case read_config inp of
       Inl e \<Rightarrow> Some (1, Some e, None)
     | Inr cfg \<Rightarrow>
         (case simulate cfg sched of
            None \<Rightarrow> None
          | Some s \<Rightarrow> Some (0, None, Some s)))"

section \<open>Assertions about the threads\<close>

text \<open>
  The control points at which a worker owns \<open>mtx\<close>: from the construction of the
  \<open>unique_lock\<close> (or the return of \<open>wait\<close>) to \<open>lock.unlock()\<close>, and from
  \<open>lock.lock()\<close> to the end of the loop body.
\<close>

fun holds_mtx :: "pc \<Rightarrow> bool" where
  "holds_mtx Lock36 = False"
| "holds_mtx Parked = False"
| "holds_mtx Woken = False"
| "holds_mtx Sample58 = False"
| "holds_mtx (Sleep59 r) = False"
| "holds_mtx (Relock62 r) = False"
| "holds_mtx Stopped = False"
| "holds_mtx _ = True"

text \<open>
  Mutual exclusion: a thread inside a critical section is the owner of the mutex, so no
  two threads are inside critical sections at once.
\<close>

definition lock_inv :: "state \<Rightarrow> bool" where
  "lock_inv s \<longleftrightarrow>
     (\<forall>i < length (pcs s). holds_mtx (pcs s ! i) \<longrightarrow> mtx s = Some (Worker i)) \<and>
     (mon s = MCheck99 \<longrightarrow> mtx s = Some Monitor)"

text \<open>
  What the owner of the mutex knows about the counters \<open>t\<close>, \<open>h\<close>, \<open>d\<close> on its
  way from the test of line 45 through the three decrements.
\<close>

fun withdrawable :: "pc \<Rightarrow> int \<Rightarrow> int \<Rightarrow> int \<Rightarrow> bool" where
  "withdrawable Mark50 t h d \<longleftrightarrow> 0 < t \<and> 0 < h \<and> 3 \<le> d"
| "withdrawable DecTank51 t h d \<longleftrightarrow> 0 < t \<and> 0 < h \<and> 3 \<le> d"
| "withdrawable DecHealer52 t h d \<longleftrightarrow> 0 < h \<and> 3 \<le> d"
| "withdrawable DecDps53 t h d \<longleftrightarrow> 3 \<le> d"
| "withdrawable _ t h d \<longleftrightarrow> True"

text \<open>
  The counters stay between zero and their initial values, and the thread that is about
  to decrement one has found it large enough.
\<close>

definition pool_inv :: "config \<Rightarrow> state \<Rightarrow> bool" where
  "pool_inv cfg s \<longleftrightarrow>
     0 \<le> tank_queue s \<and> tank_queue s \<le> tanks0 cfg \<and>
     0 \<le> healer_queue s \<and> healer_queue s \<le> healers0 cfg \<and>
     0 \<le> dps_queue s \<and> dps_queue s \<le> dps0 cfg \<and>
     (case mtx s of
        Some (Worker k) \<Rightarrow> withdrawable (pcs s ! k) (tank_queue s) (healer_queue s) (dps_queue s)
      | _ \<Rightarrow> True)"

text \<open>No worker is blocked inside \<open>cv.wait\<close>.\<close>

definition awake :: "state \<Rightarrow> bool" where
  "awake s \<longleftrightarrow> Parked \<notin> set (pcs s) \<and> Woken \<notin> set (pcs s)"

text \<open>A worker has returned only if the termination condition holds.\<close>

definition stop_inv :: "state \<Rightarrow> bool" where
  "stop_inv s \<longleftrightarrow> (Stopped \<in> set (pcs s) \<longrightarrow> no_more_parties s)"

text \<open>
  The effect of one step on the counters: none, or one of the decrements of lines 51
  to 53.
\<close>

definition decrement :: "state \<Rightarrow> state \<Rightarrow> bool" where
  "decrement s s' \<longleftrightarrow>
     (tank_queue s' = tank_queue s \<and> healer_queue s' = healer_queue s \<and>
      dps_queue s' = dps_queue s) \<or>
     (tank_queue s' = tank_queue s - 1 \<and> healer_queue s' = healer_queue s \<and>
      dps_queue s' = dps_queue s) \<or>
     (tank_queue s' = tank_queue s \<and> healer_queue s' = healer_queue s - 1 \<and>
      dps_queue s' = dps_queue s) \<or>
     (tank_queue s' = tank_queue s \<and> healer_queue s' = healer_queue s \<and>
      dps_queue s' = dps_queue s - 3)"

text \<open>
  The control points between the assignment of line 50 and that of line 65, at which
  \<open>is_active\<close> of the worker's instance is true.
\<close>

fun active_pc :: "pc \<Rightarrow> bool" where
  "active_pc DecTank51 = True"
| "active_pc DecHealer52 = True"
| "active_pc DecDps53 = True"
| "active_pc Unlock55 = True"
| "active_pc Sample58 = True"
| "active_pc (Sleep59 r) = True"
| "active_pc (Relock62 r) = True"
| "active_pc (Served63 r) = True"
| "active_pc (Time64 r) = True"
| "active_pc Clear65 = True"
| "active_pc _ = False"

text \<open>The value of \<open>run_time\<close> where it is live, and the part of it not yet added to
  \<open>total_time\<close> although the run has been counted.\<close>

fun run_time_ok :: "config \<Rightarrow> pc \<Rightarrow> bool" where
  "run_time_ok cfg (Sleep59 r) \<longleftrightarrow> min_time cfg \<le> r \<and> r \<le> max_time cfg"
| "run_time_ok cfg (Relock62 r) \<longleftrightarrow> min_time cfg \<le> r \<and> r \<le> max_time cfg"
| "run_time_ok cfg (Served63 r) \<longleftrightarrow> min_time cfg \<le> r \<and> r \<le> max_time cfg"
| "run_time_ok cfg (Time64 r) \<longleftrightarrow> min_time cfg \<le> r \<and> r \<le> max_time cfg"
| "run_time_ok cfg _ \<longleftrightarrow> True"

fun pending_time :: "pc \<Rightarrow> int" where
  "pending_time (Time64 r) = r"
| "pending_time _ = 0"

text \<open>
  What holds of a worker and its instance: the active flag follows the control point,
  and the busy time lies between \<open>min_time\<close> and \<open>max_time\<close> per party served.
\<close>

definition worker_inv :: "config \<Rightarrow> pc \<Rightarrow> Instance \<Rightarrow> bool" where
  "worker_inv cfg p x \<longleftrightarrow>
     is_active x = active_pc p \<and> 0 \<le> parties_served x \<and> run_time_ok cfg p \<and>
     min_time cfg * parties_served x \<le> total_time x + pending_time p \<and>
     total_time x + pending_time p \<le> max_time cfg * parties_served x"

definition workers_inv :: "config \<Rightarrow> state \<Rightarrow> bool" where
  "workers_inv cfg s \<longleftrightarrow>
     length (pcs s) = nat (max_instances cfg) \<and> length (instances s) = length (pcs s) \<and>
     (\<forall>i < length (pcs s). worker_inv cfg (pcs s ! i) (instances s ! i))"

text \<open>
  The units a worker has taken from a queue for a party that \<open>parties_served\<close> does not
  count yet: one tank from line 51 on, one healer from line 52 on, three dps from line 53
  on, each until line 63.
\<close>

fun tank_debt :: "pc \<Rightarrow> int" where
  "tank_debt DecHealer52 = 1"
| "tank_debt DecDps53 = 1"
| "tank_debt Unlock55 = 1"
| "tank_debt Sample58 = 1"
| "tank_debt (Sleep59 r) = 1"
| "tank_debt (Relock62 r) = 1"
| "tank_debt (Served63 r) = 1"
| "tank_debt _ = 0"

fun healer_debt :: "pc \<Rightarrow> int" where
  "healer_debt DecDps53 = 1"
| "healer_debt Unlock55 = 1"
| "healer_debt Sample58 = 1"
| "healer_debt (Sleep59 r) = 1"
| "healer_debt (Relock62 r) = 1"
| "healer_debt (Served63 r) = 1"
| "healer_debt _ = 0"

fun dps_debt :: "pc \<Rightarrow> int" where
  "dps_debt Unlock55 = 3"
| "dps_debt Sample58 = 3"
| "dps_debt (Sleep59 r) = 3"
| "dps_debt (Relock62 r) = 3"
| "dps_debt (Served63 r) = 3"
| "dps_debt _ = 0"

text \<open>A run that has been counted (line 63) but not yet followed by the call of line 68.\<close>

fun unannounced :: "pc \<Rightarrow> int" where
  "unannounced (Time64 r) = 1"
| "unannounced Clear65 = 1"
| "unannounced Notify68 = 1"
| "unannounced _ = 0"

text \<open>The parties formed so far, summed over all instances.\<close>

definition total_parties :: "state \<Rightarrow> int" where
  "total_parties s = sum_list (map parties_served (instances s))"

definition tally_inv :: "config \<Rightarrow> state \<Rightarrow> bool" where
  "tally_inv cfg s \<longleftrightarrow>
     tanks0 cfg - tank_queue s = total_parties s + sum_list (map tank_debt (pcs s)) \<and>
     healers0 cfg - healer_queue s = total_parties s + sum_list (map healer_debt (pcs s)) \<and>
     dps0 cfg - dps_queue s = 3 * total_parties s + sum_list (map dps_debt (pcs s)) \<and>
     int (notifications s) + sum_list (map unannounced (pcs s)) = total_parties s"

text \<open>
  The control points of a worker that has not passed the test of line 45: before the
  test, or returned.
\<close>

fun before_check :: "pc \<Rightarrow> bool" where
  "before_check Lock36 = True"
| "before_check Wait39 = True"
| "before_check Check45 = True"
| "before_check Stopped = True"
| "before_check _ = False"

text \<open>Nothing has been withdrawn, recorded or announced yet.\<close>

definition untouched :: "config \<Rightarrow> state \<Rightarrow> bool" where
  "untouched cfg s \<longleftrightarrow>
     tank_queue s = tanks0 cfg \<and> healer_queue s = healers0 cfg \<and> dps_queue s = dps0 cfg \<and>
     instances s = replicate (nat (max_instances cfg)) new_instance \<and>
     notifications s = 0 \<and> (\<forall>p \<in> set (pcs s). before_check p)"

text \<open>
  The steps a worker needs from line 36 to a control point when it returns at its first
  test of line 45: taking the mutex, passing the wait, and the test.
\<close>

fun first_pass_steps :: "pc \<Rightarrow> nat" where
  "first_pass_steps Wait39 = 1"
| "first_pass_steps Check45 = 2"
| "first_pass_steps Stopped = 3"
| "first_pass_steps _ = 0"

text \<open>The number of steps of worker \<open>i\<close> in a schedule.\<close>

definition steps_of :: "nat \<Rightarrow> action list \<Rightarrow> nat" where
  "steps_of i sched = length (filter (\<lambda>a. actor a = Worker i) sched)"

section \<open>Example configurations, schedules and states\<close>

text \<open>
  One instance and exactly one party, runs of zero seconds. The schedule lets the worker
  withdraw the party, run, record, find the queues exhausted and return, and then lets
  the status thread return.
\<close>

definition scenario_A :: config where
  "scenario_A = \<lparr>max_instances = 1, tanks0 = 1, healers0 = 1, dps0 = 3, min_time = 0, max_time = 0\<rparr>"

definition schedule_A :: "action list" where
  "schedule_A = replicate 8 (Work 0) @ [Draw 0 0] @ replicate 5 (Work 0) @ [Signal 0 None] @
     replicate 4 (Work 0) @ [Observe, Observe]"

text \<open>
  States of \<open>scenario_A\<close> under \<open>schedule_A\<close>: the worker at the wait of line 39
  (1 step), at the test of line 45 (2 steps), about to take the tank (4 steps), after the
  tank has been taken (5 steps), back at the test of line 45 (18 steps), returned (19
  steps), and the end.
\<close>

definition state_A_1 :: state where
  "state_A_1 = \<lparr>tank_queue = 1, healer_queue = 1, dps_queue = 3,
     instances = [\<lparr>is_active = False, parties_served = 0, total_time = 0\<rparr>],
     mtx = Some (Worker 0), pcs = [Wait39], mon = MSleep96, notifications = 0\<rparr>"

definition state_A_2 :: state where
  "state_A_2 = \<lparr>tank_queue = 1, healer_queue = 1, dps_queue = 3,
     instances = [\<lparr>is_active = False, parties_served = 0, total_time = 0\<rparr>],
     mtx = Some (Worker 0), pcs = [Check45], mon = MSleep96, notifications = 0\<rparr>"

definition state_A_4 :: state where
  "state_A_4 = \<lparr>tank_queue = 1, healer_queue = 1, dps_queue = 3,
     instances = [\<lparr>is_active = True, parties_served = 0, total_time = 0\<rparr>],
     mtx = Some (Worker 0), pcs = [DecTank51], mon = MSleep96, notifications = 0\<rparr>"

definition state_A_5 :: state where
  "state_A_5 = \<lparr>tank_queue = 0, healer_queue = 1, dps_queue = 3,
     instances = [\<lparr>is_active = True, parties_served = 0, total_time = 0\<rparr>],
     mtx = Some (Worker 0), pcs = [DecHealer52], mon = MSleep96, notifications = 0\<rparr>"

definition state_A_18 :: state where
  "state_A_18 = \<lparr>tank_queue = 0, healer_queue = 0, dps_queue = 0,
     instances = [\<lparr>is_active = False, parties_served = 1, total_time = 0\<rparr>],
     mtx = Some (Worker 0), pcs = [Check45], mon = MSleep96, notifications = 1\<rparr>"

definition state_A_19 :: state where
  "state_A_19 = \<lparr>tank_queue = 0, healer_queue = 0, dps_queue = 0,
     instances = [\<lparr>is_active = False, parties_served = 1, total_time = 0\<rparr>],
     mtx = None, pcs = [Stopped], mon = MSleep96, notifications = 1\<rparr>"

definition state_A_end :: state where
  "state_A_end = \<lparr>tank_queue = 0, healer_queue = 0, dps_queue = 0,
     instances = [\<lparr>is_active = False, parties_served = 1, total_time = 0\<rparr>],
     mtx = None, pcs = [Stopped], mon = MStopped, notifications = 1\<rparr>"

text \<open>
  Two instances and two parties, runs of one second. Under the schedule both workers
  withdraw a party before either run ends; the second worker records its run first.
\<close>

definition scenario_B :: config where
  "scenario_B = \<lparr>max_instances = 2, tanks0 = 2, healers0 = 2, dps0 = 6, min_time = 1, max_time = 1\<rparr>"

definition schedule_B :: "action list" where
  "schedule_B = replicate 8 (Work 0) @ replicate 8 (Work 1) @ [Draw 0 1, Draw 1 1] @
     replicate 5 (Work 1) @ [Signal 1 None, Work 1] @
     replicate 5 (Work 0) @ [Signal 0 None, Work 0] @
     replicate 3 (Work 1) @ replicate 3 (Work 0) @ [Observe, Observe]"

text \<open>
  States of \<open>scenario_B\<close> under \<open>schedule_B\<close>: the second worker before and
  after its call of line 68 (23 and 24 steps).
\<close>

definition state_B_23 :: state where
  "state_B_23 = \<lparr>tank_queue = 0, healer_queue = 0, dps_queue = 0,
     instances = [\<lparr>is_active = True, parties_served = 0, total_time = 0\<rparr>,
                  \<lparr>is_active = False, parties_served = 1, total_time = 1\<rparr>],
     mtx = Some (Worker 1), pcs = [Sleep59 1, Notify68], mon = MSleep96, notifications = 0\<rparr>"

definition state_B_24 :: state where
  "state_B_24 = \<lparr>tank_queue = 0, healer_queue = 0, dps_queue = 0,
     instances = [\<lparr>is_active = True, parties_served = 0, total_time = 0\<rparr>,
                  \<lparr>is_active = False, parties_served = 1, total_time = 1\<rparr>],
     mtx = Some (Worker 1), pcs = [Sleep59 1, EndIter69], mon = MSleep96, notifications = 1\<rparr>"

text \<open>
  States of \<open>scenario_B\<close> under \<open>schedule_B\<close>: when both runs have been recorded
  and both workers are back at line 36 (32 steps), and at the end.
\<close>

definition state_B_32 :: state where
  "state_B_32 = \<lparr>tank_queue = 0, healer_queue = 0, dps_queue = 0,
     instances = [\<lparr>is_active = False, parties_served = 1, total_time = 1\<rparr>,
                  \<lparr>is_active = False, parties_served = 1, total_time = 1\<rparr>],
     mtx = None, pcs = [Lock36, Lock36], mon = MSleep96, notifications = 2\<rparr>"

definition state_B_end :: state where
  "state_B_end = \<lparr>tank_queue = 0, healer_queue = 0, dps_queue = 0,
     instances = [\<lparr>is_active = False, parties_served = 1, total_time = 1\<rparr>,
                  \<lparr>is_active = False, parties_served = 1, total_time = 1\<rparr>],
     mtx = None, pcs = [Stopped, Stopped], mon = MStopped, notifications = 2\<rparr>"

text \<open>
  A second schedule for \<open>scenario_B\<close>: the second worker withdraws a party, then the
  first worker takes the mutex. The states: the first worker at line 39 (9 steps), at
  line 50 (11 steps), and after the second worker has drawn its run time meanwhile; and
  the state in which both have withdrawn their parties.
\<close>

definition schedule_B2 :: "action list" where
  "schedule_B2 = replicate 8 (Work 1) @ [Work 0]"

definition state_B2_9 :: state where
  "state_B2_9 = \<lparr>tank_queue = 1, healer_queue = 1, dps_queue = 3,
     instances = [\<lparr>is_active = False, parties_served = 0, total_time = 0\<rparr>,
                  \<lparr>is_active = True, parties_served = 0, total_time = 0\<rparr>],
     mtx = Some (Worker 0), pcs = [Wait39, Sample58], mon = MSleep96, notifications = 0\<rparr>"

definition state_B2_11 :: state where
  "state_B2_11 = \<lparr>tank_queue = 1, healer_queue = 1, dps_queue = 3,
     instances = [\<lparr>is_active = False, parties_served = 0, total_time = 0\<rparr>,
                  \<lparr>is_active = True, parties_served = 0, total_time = 0\<rparr>],
     mtx = Some (Worker 0), pcs = [Mark50, Sample58], mon = MSleep96, notifications = 0\<rparr>"

definition state_B2_12 :: state where
  "state_B2_12 = \<lparr>tank_queue = 1, healer_queue = 1, dps_queue = 3,
     instances = [\<lparr>is_active = False, parties_served = 0, total_time = 0\<rparr>,
                  \<lparr>is_active = True, parties_served = 0, total_time = 0\<rparr>],
     mtx = Some (Worker 0), pcs = [Mark50, Sleep59 1], mon = MSleep96, notifications = 0\<rparr>"

definition state_B2_16 :: state where
  "state_B2_16 = \<lparr>tank_queue = 0, healer_queue = 0, dps_queue = 0,
     instances = [\<lparr>is_active = True, parties_served = 0, total_time = 0\<rparr>,
                  \<lparr>is_active = True, parties_served = 0, total_time = 0\<rparr>],
     mtx = None, pcs = [Sample58, Sample58], mon = MSleep96, notifications = 0\<rparr>"

text \<open>
  Three instances and no tank. Under the schedule each worker in turn takes the mutex,
  finds the termination condition and returns; then the status thread returns.
\<close>

definition scenario_C :: config where
  "scenario_C = \<lparr>max_instances = 3, tanks0 = 0, healers0 = 5, dps0 = 10, min_time = 0, max_time = 0\<rparr>"

definition schedule_C :: "action list" where
  "schedule_C = replicate 3 (Work 0) @ replicate 3 (Work 1) @ replicate 3 (Work 2) @
     [Observe, Observe]"

text \<open>
  States of \<open>scenario_C\<close> under \<open>schedule_C\<close>: the first worker at line 39 (1
  step), at the test of line 45 (2 steps) and returned (3 steps); the second worker
  returned as well (6 steps); and the end.
\<close>

definition state_C_1 :: state where
  "state_C_1 = \<lparr>tank_queue = 0, healer_queue = 5, dps_queue = 10,
     instances = [new_instance, new_instance, new_instance],
     mtx = Some (Worker 0), pcs = [Wait39, Lock36, Lock36], mon = MSleep96,
     notifications = 0\<rparr>"

definition state_C_2 :: state where
  "state_C_2 = \<lparr>tank_queue = 0, healer_queue = 5, dps_queue = 10,
     instances = [new_instance, new_instance, new_instance],
     mtx = Some (Worker 0), pcs = [Check45, Lock36, Lock36], mon = MSleep96,
     notifications = 0\<rparr>"

definition state_C_3 :: state where
  "state_C_3 = \<lparr>tank_queue = 0, healer_queue = 5, dps_queue = 10,
     instances = [new_instance, new_instance, new_instance],
     mtx = None, pcs = [Stopped, Lock36, Lock36], mon = MSleep96, notifications = 0\<rparr>"

definition state_C_6 :: state where
  "state_C_6 = \<lparr>tank_queue = 0, healer_queue = 5, dps_queue = 10,
     instances = [new_instance, new_instance, new_instance],
     mtx = None, pcs = [Stopped, Stopped, Lock36], mon = MSleep96, notifications = 0\<rparr>"

definition state_C_end :: state where
  "state_C_end = \<lparr>tank_queue = 0, healer_queue = 5, dps_queue = 10,
     instances = [new_instance, new_instance, new_instance],
     mtx = None, pcs = [Stopped, Stopped, Stopped], mon = MStopped, notifications = 0\<rparr>"

text \<open>One instance, one tank, one healer, two dps.\<close>

definition scenario_D :: config where
  "scenario_D = \<lparr>max_instances = 1, tanks0 = 1, healers0 = 1, dps0 = 2, min_time = 0, max_time = 0\<rparr>"

text \<open>
  The schedule that lets each of \<open>n\<close> workers in turn take the mutex, test and
  return, and then lets the status thread take the mutex and return.
\<close>

definition idle_schedule :: "nat \<Rightarrow> action list" where
  "idle_schedule n = concat (map (\<lambda>i. [Work i, Work i, Work i]) [0..<n]) @ [Observe, Observe]"

section \<open>Executions\<close>

lemma exec_induct [consumes 1, case_names init step]:
  assumes "exec cfg as s0 = Some s" and "P s0"
    and "\<And>s a s'. P s \<Longrightarrow> step cfg a s = Some s' \<Longrightarrow> P s'"
  shows "P s"
  using assms(1,2)
proof (induction as arbitrary: s0)
  case Nil
  then show ?case by simp
next
  case (Cons a as)
  then show ?case by (auto split: option.splits intro: assms(3))
qed

lemma exec_append:
  "exec cfg (as @ bs) s = (case exec cfg as s of None \<Rightarrow> None | Some s' \<Rightarrow> exec cfg bs s')"
  by (induction as arbitrary: s) (auto split: option.splits)

lemma exec_reachable:
  assumes "exec cfg sched (init cfg) = Some s" and "exec cfg rest s = Some s'"
  shows "exec cfg (sched @ rest) (init cfg) = Some s'"
  using assms by (simp add: exec_append)

lemma exec_snoc:
  "exec cfg (as @ [a]) s0 = Some s \<longleftrightarrow> (\<exists>u. exec cfg as s0 = Some u \<and> step cfg a u = Some s)"
  by (auto simp: exec_append split: option.splits)

text \<open>The statements of a worker, one case each.\<close>

lemma work_cases [consumes 1, case_names Lock Pass Park Rewake Exit Enter Mark Tank Healer Dps
    Unlock Sleep Relock Served Time Clear EndIter]:
  assumes "work i s = Some s'"
  obtains
    "pcs s ! i = Lock36" "mtx s = None" "s' = goto i Wait39 (s\<lparr>mtx := Some (Worker i)\<rparr>)"
  | "pcs s ! i = Wait39" "wait_pred s" "s' = goto i Check45 s"
  | "pcs s ! i = Wait39" "\<not> wait_pred s" "s' = goto i Parked (s\<lparr>mtx := None\<rparr>)"
  | "pcs s ! i = Woken" "mtx s = None" "s' = goto i Wait39 (s\<lparr>mtx := Some (Worker i)\<rparr>)"
  | "pcs s ! i = Check45" "no_more_parties s" "s' = goto i Stopped (s\<lparr>mtx := None\<rparr>)"
  | "pcs s ! i = Check45" "\<not> no_more_parties s" "s' = goto i Mark50 s"
  | "pcs s ! i = Mark50"
      "s' = goto i DecTank51 (upd_instance i (\<lambda>x. x\<lparr>is_active := True\<rparr>) s)"
  | "pcs s ! i = DecTank51" "s' = goto i DecHealer52 (s\<lparr>tank_queue := tank_queue s - 1\<rparr>)"
  | "pcs s ! i = DecHealer52" "s' = goto i DecDps53 (s\<lparr>healer_queue := healer_queue s - 1\<rparr>)"
  | "pcs s ! i = DecDps53" "s' = goto i Unlock55 (s\<lparr>dps_queue := dps_queue s - 3\<rparr>)"
  | "pcs s ! i = Unlock55" "s' = goto i Sample58 (s\<lparr>mtx := None\<rparr>)"
  | r where "pcs s ! i = Sleep59 r" "s' = goto i (Relock62 r) s"
  | r where "pcs s ! i = Relock62 r" "mtx s = None"
      "s' = goto i (Served63 r) (s\<lparr>mtx := Some (Worker i)\<rparr>)"
  | r where "pcs s ! i = Served63 r"
      "s' = goto i (Time64 r)
              (upd_instance i (\<lambda>x. x\<lparr>parties_served := parties_served x + 1\<rparr>) s)"
  | r where "pcs s ! i = Time64 r"
      "s' = goto i Clear65 (upd_instance i (\<lambda>x. x\<lparr>total_time := total_time x + r\<rparr>) s)"
  | "pcs s ! i = Clear65"
      "s' = goto i Notify68 (upd_instance i (\<lambda>x. x\<lparr>is_active := False\<rparr>) s)"
  | "pcs s ! i = EndIter69" "s' = goto i Lock36 (s\<lparr>mtx := None\<rparr>)"
  using assms unfolding work_def by (cases "pcs s ! i") (auto split: if_splits)

text \<open>The steps of the system, one case each.\<close>

lemma step_cases [consumes 1, case_names Work Draw Signal_none Signal_some Spurious
    Acquire Return Print]:
  assumes "step cfg a s = Some s'"
  obtains
    i where "a = Work i" "i < length (pcs s)" "work i s = Some s'"
  | i r where "a = Draw i r" "i < length (pcs s)" "pcs s ! i = Sample58"
      "min_time cfg \<le> r" "r \<le> max_time cfg" "s' = goto i (Sleep59 r) s"
  | i where "a = Signal i None" "i < length (pcs s)" "pcs s ! i = Notify68"
      "Parked \<notin> set (pcs s)"
      "s' = goto i EndIter69 (s\<lparr>notifications := Suc (notifications s)\<rparr>)"
  | i j where "a = Signal i (Some j)" "i < length (pcs s)" "pcs s ! i = Notify68"
      "j < length (pcs s)" "pcs s ! j = Parked"
      "s' = goto i EndIter69 (goto j Woken (s\<lparr>notifications := Suc (notifications s)\<rparr>))"
  | j where "a = Spurious j" "j < length (pcs s)" "pcs s ! j = Parked" "s' = goto j Woken s"
  | "a = Observe" "mon s = MSleep96" "mtx s = None"
      "s' = s\<lparr>mtx := Some Monitor, mon := MCheck99\<rparr>"
  | "a = Observe" "mon s = MCheck99" "no_more_parties s" "allInstancesEmpty s"
      "s' = s\<lparr>mtx := None, mon := MStopped\<rparr>"
  | "a = Observe" "mon s = MCheck99" "\<not> (no_more_parties s \<and> allInstancesEmpty s)"
      "s' = s\<lparr>mtx := None, mon := MSleep96\<rparr>"
proof (cases a)
  case (Work i)
  with assms that(1) show ?thesis by (auto simp: step_def split: if_splits)
next
  case (Draw i r)
  with assms that(2) show ?thesis by (auto simp: step_def draw_def split: if_splits)
next
  case (Signal i w)
  with assms that(3,4) show ?thesis
    by (cases w) (auto simp: step_def signal_def split: if_splits)
next
  case (Spurious j)
  with assms that(5) show ?thesis by (auto simp: step_def split: if_splits)
next
  case Observe
  with assms have o: "observe s = Some s'" by (simp add: step_def)
  show ?thesis
  proof (cases "mon s")
    case MSleep96
    with o Observe that(6) show ?thesis by (simp add: observe_def split: if_splits)
  next
    case MCheck99
    with o Observe that(7,8) show ?thesis
      by (cases "no_more_parties s \<and> allInstancesEmpty s") (simp_all add: observe_def)
  next
    case MStopped
    with o show ?thesis by (simp add: observe_def)
  qed
qed

lemma work_length:
  assumes "work i s = Some s'"
  shows "length (pcs s') = length (pcs s) \<and> length (instances s') = length (instances s)"
  using assms
  by (cases rule: work_cases) (simp_all add: goto_def upd_instance_def)

lemma step_length:
  assumes "step cfg a s = Some s'"
  shows "length (pcs s') = length (pcs s) \<and> length (instances s') = length (instances s)"
  using assms
  by (cases rule: step_cases) (simp_all add: work_length goto_def)

lemma exec_length:
  assumes "exec cfg rest s = Some s'"
  shows "length (pcs s') = length (pcs s)"
  using assms by (induction rule: exec_induct) (simp_all add: step_length)

section \<open>Mutual exclusion\<close>

lemma lock_inv_move:
  assumes "lock_inv s" and "i < length (pcs s)"
    and "pcs s' = (pcs s)[i := p']" and "mon s' = mon s"
    and "holds_mtx p' \<longrightarrow> mtx s' = Some (Worker i)"
    and "mtx s' = mtx s \<or> holds_mtx (pcs s ! i) \<or> mtx s = None"
  shows "lock_inv s'"
proof -
  have others: "mtx s' = Some (Worker j)"
    if "j < length (pcs s)" "j \<noteq> i" "holds_mtx (pcs s ! j)" for j
  proof -
    from that assms(1) have j: "mtx s = Some (Worker j)" by (simp add: lock_inv_def)
    from assms(1,2) have "holds_mtx (pcs s ! i) \<Longrightarrow> mtx s = Some (Worker i)"
      by (simp add: lock_inv_def)
    with j that(2) assms(6) show ?thesis by auto
  qed
  have monitor: "mtx s' = Some Monitor" if "mon s = MCheck99"
  proof -
    from that assms(1) have m: "mtx s = Some Monitor" by (simp add: lock_inv_def)
    from assms(1,2) have "holds_mtx (pcs s ! i) \<Longrightarrow> mtx s = Some (Worker i)"
      by (simp add: lock_inv_def)
    with m assms(6) show ?thesis by auto
  qed
  show ?thesis
    unfolding lock_inv_def
    using assms(2,3,4,5) others monitor by (auto simp: nth_list_update)
qed

lemma work_lock:
  assumes "work i s = Some s'" and "i < length (pcs s)"
  shows "pcs s' = (pcs s)[i := pcs s' ! i]" and "mon s' = mon s"
    and "(holds_mtx (pcs s ! i) \<longrightarrow> mtx s = Some (Worker i)) \<Longrightarrow>
         holds_mtx (pcs s' ! i) \<longrightarrow> mtx s' = Some (Worker i)"
    and "mtx s' = mtx s \<or> holds_mtx (pcs s ! i) \<or> mtx s = None"
  using assms
  by (auto simp: work_def goto_def upd_instance_def split: pc.splits if_splits)

lemma lock_inv_step:
  assumes "lock_inv s" and "step cfg a s = Some s'"
  shows "lock_inv s'"
proof (cases a)
  case (Work i)
  with assms(2) have i: "i < length (pcs s)" and w: "work i s = Some s'"
    by (auto simp: step_def split: if_splits)
  from assms(1) i have "holds_mtx (pcs s ! i) \<longrightarrow> mtx s = Some (Worker i)"
    by (simp add: lock_inv_def)
  with work_lock[OF w i] show ?thesis
    by (intro lock_inv_move[OF assms(1) i]) auto
next
  case (Draw i r)
  with assms(2) have i: "i < length (pcs s)" and s': "s' = goto i (Sleep59 r) s"
    by (auto simp: step_def draw_def split: if_splits)
  show ?thesis
    by (rule lock_inv_move[OF assms(1) i, where p' = "Sleep59 r"]) (simp_all add: s' goto_def)
next
  case (Signal i w)
  with assms(2) have i: "i < length (pcs s)" and at: "pcs s ! i = Notify68"
    and sg: "signal i w s = Some s'"
    by (auto simp: step_def signal_def split: if_splits)
  from assms(1) i at have own: "mtx s = Some (Worker i)" by (simp add: lock_inv_def)
  show ?thesis
  proof (cases w)
    case None
    with sg at have s': "s' = goto i EndIter69 (s\<lparr>notifications := Suc (notifications s)\<rparr>)"
      by (auto simp: signal_def split: if_splits)
    show ?thesis
      by (rule lock_inv_move[OF assms(1) i, where p' = EndIter69])
        (simp_all add: s' goto_def own)
  next
    case (Some j)
    with sg at have j: "j < length (pcs s)"
      and s': "s' = goto i EndIter69 (goto j Woken (s\<lparr>notifications := Suc (notifications s)\<rparr>))"
      by (auto simp: signal_def split: if_splits)
    have mid: "lock_inv (goto j Woken s)"
      by (rule lock_inv_move[OF assms(1) j, where p' = Woken]) (simp_all add: goto_def)
    show ?thesis
      by (rule lock_inv_move[OF mid, where i = i and p' = EndIter69])
        (simp_all add: s' goto_def own i)
  qed
next
  case (Spurious j)
  with assms(2) have j: "j < length (pcs s)" and s': "s' = goto j Woken s"
    by (auto simp: step_def split: if_splits)
  show ?thesis
    by (rule lock_inv_move[OF assms(1) j, where p' = Woken]) (simp_all add: s' goto_def)
next
  case Observe
  with assms(2) have o: "observe s = Some s'" by (simp add: step_def)
  from assms(1) have "mon s = MCheck99 \<Longrightarrow> \<forall>i < length (pcs s). \<not> holds_mtx (pcs s ! i)"
    by (auto simp: lock_inv_def)
  with o assms(1) show ?thesis
    by (auto simp: observe_def lock_inv_def split: mpc.splits if_splits)
qed

lemma lock_inv_init: "lock_inv (init cfg)"
  by (simp add: lock_inv_def init_def)

lemma lock_inv_exec: "exec cfg sched (init cfg) = Some s \<Longrightarrow> lock_inv s"
  by (induction rule: exec_induct) (auto intro: lock_inv_init lock_inv_step)

section \<open>The counters never go negative\<close>

lemma work_pool:
  assumes "work i s = Some s'" and "i < length (pcs s)"
    and "holds_mtx (pcs s ! i) \<longrightarrow> mtx s = Some (Worker i)"
    and "pool_inv cfg s"
  shows "pool_inv cfg s'"
  using assms(1)
  by (cases rule: work_cases)
   (use assms(2-) in \<open>auto simp: goto_def upd_instance_def pool_inv_def nth_list_update
      party_available_def no_more_parties_def
      split: option.splits thread.splits\<close>)

lemma pool_inv_step:
  assumes "lock_inv s" and "pool_inv cfg s" and "step cfg a s = Some s'"
  shows "pool_inv cfg s'"
proof (cases a)
  case (Work i)
  with assms(3) have i: "i < length (pcs s)" and w: "work i s = Some s'"
    by (auto simp: step_def split: if_splits)
  from assms(1) i have "holds_mtx (pcs s ! i) \<longrightarrow> mtx s = Some (Worker i)"
    by (simp add: lock_inv_def)
  from work_pool[OF w i this assms(2)] show ?thesis .
next
  case (Draw i r)
  with assms(2,3) show ?thesis
    by (auto simp: step_def draw_def goto_def pool_inv_def nth_list_update
        split: if_splits option.splits thread.splits)
next
  case (Signal i w)
  with assms(3) have i: "i < length (pcs s)" and at: "pcs s ! i = Notify68"
    and sg: "signal i w s = Some s'"
    by (auto simp: step_def signal_def split: if_splits)
  from assms(1) i at have own: "mtx s = Some (Worker i)" by (simp add: lock_inv_def)
  with sg at i assms(2) show ?thesis
    by (auto simp: signal_def goto_def pool_inv_def split: if_splits option.splits)
next
  case (Spurious j)
  with assms(2,3) show ?thesis
    by (auto simp: step_def goto_def pool_inv_def nth_list_update
        split: if_splits option.splits thread.splits)
next
  case Observe
  with assms(2,3) show ?thesis
    by (auto simp: step_def observe_def pool_inv_def split: mpc.splits if_splits)
qed

lemma pool_inv_init: "valid_config cfg \<Longrightarrow> pool_inv cfg (init cfg)"
  by (simp add: pool_inv_def init_def valid_config_def)

lemma pool_inv_exec:
  assumes "valid_config cfg" and "exec cfg sched (init cfg) = Some s"
  shows "lock_inv s \<and> pool_inv cfg s"
  using assms(2)
  by (induction rule: exec_induct)
    (auto intro: lock_inv_init lock_inv_step pool_inv_init pool_inv_step assms(1))

text \<open>
  C1: in every state that a valid configuration can reach, under any interleaving of the
  threads, the three counters are non-negative; a worker that is about to decrement a
  counter owns the mutex and has found, in the same critical section, that the counter is
  large enough (at least 1 for tanks and healers, at least 3 for dps).
\<close>

theorem counters_never_negative:
  assumes "valid_config cfg" and "exec cfg sched (init cfg) = Some s"
  shows "0 \<le> tank_queue s \<and> 0 \<le> healer_queue s \<and> 0 \<le> dps_queue s \<and>
    (\<forall>i < length (pcs s).
       (pcs s ! i = DecTank51 \<longrightarrow> mtx s = Some (Worker i) \<and> party_available s) \<and>
       (pcs s ! i = DecHealer52 \<longrightarrow> mtx s = Some (Worker i) \<and> 0 < healer_queue s \<and> 3 \<le> dps_queue s) \<and>
       (pcs s ! i = DecDps53 \<longrightarrow> mtx s = Some (Worker i) \<and> 3 \<le> dps_queue s))"
proof -
  from pool_inv_exec[OF assms] have l: "lock_inv s" and p: "pool_inv cfg s" by simp_all
  have "mtx s = Some (Worker i)" if "i < length (pcs s)" "holds_mtx (pcs s ! i)" for i
    using l that by (simp add: lock_inv_def)
  with p show ?thesis
    by (auto simp: pool_inv_def party_available_def)
qed

theorem counters_never_negative_witness:
  "valid_config scenario_A \<and>
   exec scenario_A (take 4 schedule_A) (init scenario_A) = Some state_A_4 \<and>
   0 \<le> tank_queue state_A_4 \<and> 0 \<le> healer_queue state_A_4 \<and> 0 \<le> dps_queue state_A_4 \<and>
   pcs state_A_4 ! 0 = DecTank51 \<and> mtx state_A_4 = Some (Worker 0) \<and>
   party_available state_A_4"
proof -
  have v: "valid_config scenario_A" by code_simp
  have e: "exec scenario_A (take 4 schedule_A) (init scenario_A) = Some state_A_4"
    by code_simp
  have i: "0 < length (pcs state_A_4)" and p: "pcs state_A_4 ! 0 = DecTank51"
    by code_simp+
  from counters_never_negative[OF v e] i p v e show ?thesis by blast
qed

section \<open>The wait of line 39 never blocks\<close>

lemma nonneg_wait_pred:
  "0 \<le> tank_queue s \<Longrightarrow> 0 \<le> healer_queue s \<Longrightarrow> 0 \<le> dps_queue s \<Longrightarrow> wait_pred s"
  by (auto simp: wait_pred_def party_available_def no_more_parties_def)

lemma not_in_update: "q \<notin> set xs \<Longrightarrow> p \<noteq> q \<Longrightarrow> q \<notin> set (xs[i := p])"
  using set_update_subset_insert[of xs i p] by auto

lemma work_awake:
  assumes "work i s = Some s'" and "wait_pred s" and "awake s"
  shows "awake s'"
  using assms(1)
  by (cases rule: work_cases)
    (use assms(2-) in \<open>auto simp: goto_def upd_instance_def awake_def dest: not_in_update\<close>)

lemma awake_step:
  assumes "pool_inv cfg s" and "awake s" and "step cfg a s = Some s'"
  shows "awake s'"
proof -
  from assms(1) have wp: "wait_pred s"
    by (simp add: pool_inv_def nonneg_wait_pred)
  have np: "j < length (pcs s) \<Longrightarrow> pcs s ! j \<noteq> Parked" for j
    using assms(2) by (metis awake_def nth_mem)
  show ?thesis
  proof (cases a)
    case (Work i)
    with assms(3) have "work i s = Some s'" by (auto simp: step_def split: if_splits)
    from work_awake[OF this wp assms(2)] show ?thesis .
  next
    case (Draw i r)
    with assms(2,3) show ?thesis
      by (auto simp: step_def draw_def goto_def awake_def split: if_splits dest: not_in_update)
  next
    case (Signal i w)
    with np assms(2,3) show ?thesis
      by (auto simp: step_def signal_def goto_def awake_def
          split: if_splits option.splits dest: not_in_update)
  next
    case (Spurious j)
    with np assms(3) show ?thesis
      by (auto simp: step_def split: if_splits)
  next
    case Observe
    with assms(2,3) show ?thesis
      by (auto simp: step_def observe_def awake_def split: mpc.splits if_splits)
  qed
qed

lemma awake_exec:
  assumes "valid_config cfg" and "exec cfg sched (init cfg) = Some s"
  shows "awake s"
proof -
  have "lock_inv s \<and> pool_inv cfg s \<and> awake s"
    using assms(2)
  proof (induction rule: exec_induct)
    case init
    show ?case
      using assms(1) by (simp add: lock_inv_init pool_inv_init) (simp add: awake_def init_def)
  next
    case (step s a s')
    then show ?case by (auto intro: lock_inv_step pool_inv_step awake_step)
  qed
  then show ?thesis by simp
qed

text \<open>
  C10: the predicate of the wait in line 39 holds in every state whose counters are
  non-negative. Hence, in every state that a valid configuration can reach, the predicate
  holds, no worker is blocked inside \<open>cv.wait\<close> or on its way out of it, and a worker
  at line 39 goes on to the test of line 45 at once, with the state unchanged.
\<close>

theorem wait_never_blocks:
  assumes "valid_config cfg" and "exec cfg sched (init cfg) = Some s"
  shows "(\<forall>u. 0 \<le> tank_queue u \<and> 0 \<le> healer_queue u \<and> 0 \<le> dps_queue u \<longrightarrow> wait_pred u) \<and>
    wait_pred s \<and>
    (\<forall>i < length (pcs s). pcs s ! i \<noteq> Parked \<and> pcs s ! i \<noteq> Woken \<and>
       (pcs s ! i = Wait39 \<longrightarrow> step cfg (Work i) s = Some (goto i Check45 s)))"
proof -
  from pool_inv_exec[OF assms] have wp: "wait_pred s"
    by (simp add: pool_inv_def nonneg_wait_pred)
  from awake_exec[OF assms] have "pcs s ! i \<noteq> Parked \<and> pcs s ! i \<noteq> Woken"
    if "i < length (pcs s)" for i
    using that by (metis awake_def nth_mem)
  with wp show ?thesis
    by (auto simp: nonneg_wait_pred step_def work_def)
qed

theorem wait_never_blocks_witness:
  "valid_config scenario_A \<and>
   exec scenario_A (take 1 schedule_A) (init scenario_A) = Some state_A_1 \<and>
   0 \<le> tank_queue state_A_1 \<and> 0 \<le> healer_queue state_A_1 \<and> 0 \<le> dps_queue state_A_1 \<and>
   wait_pred state_A_1 \<and> pcs state_A_1 ! 0 = Wait39 \<and>
   step scenario_A (Work 0) state_A_1 = Some state_A_2"
proof -
  have v: "valid_config scenario_A" by code_simp
  have e: "exec scenario_A (take 1 schedule_A) (init scenario_A) = Some state_A_1"
    by code_simp
  have n: "0 \<le> tank_queue state_A_1 \<and> 0 \<le> healer_queue state_A_1 \<and> 0 \<le> dps_queue state_A_1"
    and i: "0 < length (pcs state_A_1)" and p: "pcs state_A_1 ! 0 = Wait39"
    and g: "goto 0 Check45 state_A_1 = state_A_2"
    by code_simp+
  from wait_never_blocks[OF v e] n have w: "wait_pred state_A_1" by blast
  from wait_never_blocks[OF v e] i p g
  have "step scenario_A (Work 0) state_A_1 = Some state_A_2" by simp
  with v e n w p show ?thesis by blast
qed

section \<open>The termination condition only becomes true\<close>

lemma work_decrement:
  assumes "work i s = Some s'"
  shows "decrement s s'"
  using assms
  by (cases rule: work_cases) (simp_all add: goto_def upd_instance_def decrement_def)

lemma work_no_more_parties:
  assumes "work i s = Some s'"
    and "mtx s = Some (Worker i) \<longrightarrow>
      withdrawable (pcs s ! i) (tank_queue s) (healer_queue s) (dps_queue s)"
    and "holds_mtx (pcs s ! i) \<longrightarrow> mtx s = Some (Worker i)"
    and "no_more_parties s"
  shows "no_more_parties s'"
  using assms(1)
proof (cases rule: work_cases)
  case Tank
  with assms(2-) show ?thesis by (simp add: no_more_parties_def)
next
  case Healer
  with assms(2-) show ?thesis by (auto simp: no_more_parties_def goto_def)
next
  case Dps
  with assms(2-) show ?thesis by (auto simp: no_more_parties_def goto_def)
qed (use assms(4) in \<open>simp_all add: no_more_parties_def goto_def upd_instance_def\<close>)

lemma work_monotone:
  assumes "work i s = Some s'" and "i < length (pcs s)"
    and "holds_mtx (pcs s ! i) \<longrightarrow> mtx s = Some (Worker i)"
    and "pool_inv cfg s"
  shows "decrement s s' \<and> (no_more_parties s \<longrightarrow> no_more_parties s')"
proof -
  from assms(4) have "mtx s = Some (Worker i) \<longrightarrow>
      withdrawable (pcs s ! i) (tank_queue s) (healer_queue s) (dps_queue s)"
    by (auto simp: pool_inv_def)
  with work_decrement[OF assms(1)] work_no_more_parties[OF assms(1) _ assms(3)]
  show ?thesis by blast
qed

lemma step_monotone:
  assumes "lock_inv s" and "pool_inv cfg s" and "step cfg a s = Some s'"
  shows "decrement s s' \<and> (no_more_parties s \<longrightarrow> no_more_parties s')"
  using assms(3)
proof (cases rule: step_cases)
  case (Work i)
  from assms(1) Work(2) have "holds_mtx (pcs s ! i) \<longrightarrow> mtx s = Some (Worker i)"
    by (simp add: lock_inv_def)
  from work_monotone[OF Work(3,2) this assms(2)] show ?thesis .
qed (simp_all add: goto_def decrement_def no_more_parties_def)

lemma work_to_stopped:
  assumes "work j s = Some s'" and "j < length (pcs s)"
    and "pcs s' ! i = Stopped" and "pcs s ! i \<noteq> Stopped"
  shows "i = j \<and> pcs s ! i = Check45 \<and> no_more_parties s"
  using assms(1)
  by (cases rule: work_cases)
    (use assms(2-) in \<open>auto simp: goto_def upd_instance_def nth_list_update split: if_splits\<close>)

lemma step_to_stopped:
  assumes "step cfg a s = Some s'" and "pcs s' ! i = Stopped" and "pcs s ! i \<noteq> Stopped"
  shows "a = Work i \<and> pcs s ! i = Check45 \<and> no_more_parties s"
  using assms(1)
proof (cases rule: step_cases)
  case (Work j)
  from work_to_stopped[OF Work(3,2) assms(2,3)] Work(1) show ?thesis by blast
qed (use assms(2,3) in \<open>auto simp: goto_def nth_list_update split: if_splits\<close>)

lemma stop_inv_step:
  assumes "lock_inv s" and "pool_inv cfg s" and "stop_inv s" and "step cfg a s = Some s'"
  shows "stop_inv s'"
  unfolding stop_inv_def
proof
  assume "Stopped \<in> set (pcs s')"
  then obtain i where i: "i < length (pcs s')" "pcs s' ! i = Stopped"
    by (auto simp: in_set_conv_nth)
  from step_length[OF assms(4)] i have i': "i < length (pcs s)" by simp
  have "no_more_parties s"
  proof (cases "pcs s ! i = Stopped")
    case True
    with i' have "Stopped \<in> set (pcs s)" by (metis nth_mem)
    with assms(3) show ?thesis by (simp add: stop_inv_def)
  next
    case False
    from step_to_stopped[OF assms(4) i(2) False] show ?thesis by simp
  qed
  with step_monotone[OF assms(1,2,4)] show "no_more_parties s'" by simp
qed

lemma stop_inv_exec:
  assumes "valid_config cfg" and "exec cfg sched (init cfg) = Some s"
  shows "stop_inv s"
proof -
  have "lock_inv s \<and> pool_inv cfg s \<and> stop_inv s"
    using assms(2)
  proof (induction rule: exec_induct)
    case init
    have "stop_inv (init cfg)" by (simp add: stop_inv_def init_def)
    with assms(1) show ?case by (simp add: lock_inv_init pool_inv_init)
  next
    case (step s a s')
    then show ?case by (auto intro: lock_inv_step pool_inv_step stop_inv_step)
  qed
  then show ?thesis by simp
qed

lemma no_more_parties_not_available: "no_more_parties s \<Longrightarrow> \<not> party_available s"
  by (auto simp: no_more_parties_def party_available_def)

text \<open>
  C4: in every state that a valid configuration can reach, a worker that has returned
  implies that the termination condition holds, so a full party is not available; and
  the only step that takes a worker to its end is its own test of line 45, taken in a
  state in which the termination condition holds.
\<close>

theorem no_false_termination:
  assumes "valid_config cfg" and "exec cfg sched (init cfg) = Some s"
    and "i < length (pcs s)"
  shows "(pcs s ! i = Stopped \<longrightarrow> no_more_parties s \<and> \<not> party_available s) \<and>
    (\<forall>a s'. step cfg a s = Some s' \<and> pcs s ! i \<noteq> Stopped \<and> pcs s' ! i = Stopped \<longrightarrow>
       a = Work i \<and> pcs s ! i = Check45 \<and> no_more_parties s \<and> \<not> party_available s)"
proof -
  from stop_inv_exec[OF assms(1,2)] assms(3)
  have "pcs s ! i = Stopped \<longrightarrow> no_more_parties s"
    by (metis stop_inv_def nth_mem)
  then show ?thesis
    using step_to_stopped no_more_parties_not_available by blast
qed

theorem no_false_termination_witness:
  "valid_config scenario_A \<and>
   exec scenario_A (take 18 schedule_A) (init scenario_A) = Some state_A_18 \<and>
   exec scenario_A (take 19 schedule_A) (init scenario_A) = Some state_A_19 \<and>
   step scenario_A (Work 0) state_A_18 = Some state_A_19 \<and>
   pcs state_A_18 ! 0 = Check45 \<and> pcs state_A_19 ! 0 = Stopped \<and>
   no_more_parties state_A_18 \<and> \<not> party_available state_A_18 \<and>
   no_more_parties state_A_19 \<and> \<not> party_available state_A_19"
proof -
  have v: "valid_config scenario_A" by code_simp
  have e18: "exec scenario_A (take 18 schedule_A) (init scenario_A) = Some state_A_18"
    by code_simp
  have e19: "exec scenario_A (take 19 schedule_A) (init scenario_A) = Some state_A_19"
    by code_simp
  have st: "step scenario_A (Work 0) state_A_18 = Some state_A_19" by code_simp
  have i18: "0 < length (pcs state_A_18)" by code_simp
  have i19: "0 < length (pcs state_A_19)" by code_simp
  have p18: "pcs state_A_18 ! 0 = Check45" by code_simp
  have p19: "pcs state_A_19 ! 0 = Stopped" by code_simp
  from no_false_termination[OF v e18 i18] st p18 p19
  have "no_more_parties state_A_18 \<and> \<not> party_available state_A_18" by auto
  moreover from no_false_termination[OF v e19 i19] p19
  have "no_more_parties state_A_19 \<and> \<not> party_available state_A_19" by simp
  ultimately show ?thesis using v e18 e19 st p18 p19 by simp
qed

text \<open>
  C8: from any state that a valid configuration can reach, no continuation of the
  execution increases a counter, and once the termination condition holds it holds in
  every later state; every single step either leaves the three counters as they are or
  decrements one of them by its share of a party (1 tank, 1 healer, 3 dps).
\<close>

theorem termination_condition_monotone:
  assumes "valid_config cfg" and "exec cfg sched (init cfg) = Some s"
    and "exec cfg rest s = Some s'"
  shows "tank_queue s' \<le> tank_queue s \<and> healer_queue s' \<le> healer_queue s \<and>
    dps_queue s' \<le> dps_queue s \<and> (no_more_parties s \<longrightarrow> no_more_parties s') \<and>
    (\<forall>a u. step cfg a s' = Some u \<longrightarrow> decrement s' u)"
proof -
  from pool_inv_exec[OF assms(1,2)] have s: "lock_inv s \<and> pool_inv cfg s" .
  have "lock_inv s' \<and> pool_inv cfg s' \<and> tank_queue s' \<le> tank_queue s \<and>
    healer_queue s' \<le> healer_queue s \<and> dps_queue s' \<le> dps_queue s \<and>
    (no_more_parties s \<longrightarrow> no_more_parties s')"
    using assms(3)
  proof (induction rule: exec_induct)
    case init
    from s show ?case by simp
  next
    case (step u a u')
    then have l: "lock_inv u" and p: "pool_inv cfg u" by simp_all
    from step_monotone[OF l p step(2)]
    have "tank_queue u' \<le> tank_queue u \<and> healer_queue u' \<le> healer_queue u \<and>
      dps_queue u' \<le> dps_queue u \<and> (no_more_parties u \<longrightarrow> no_more_parties u')"
      by (auto simp: decrement_def)
    with step(1) lock_inv_step[OF l step(2)] pool_inv_step[OF l p step(2)]
    show ?case by auto
  qed
  with step_monotone show ?thesis by blast
qed

theorem termination_condition_monotone_witness:
  "valid_config scenario_A \<and>
   exec scenario_A (take 5 schedule_A) (init scenario_A) = Some state_A_5 \<and>
   exec scenario_A (drop 5 (take 18 schedule_A)) state_A_5 = Some state_A_18 \<and>
   tank_queue state_A_18 \<le> tank_queue state_A_5 \<and>
   healer_queue state_A_18 \<le> healer_queue state_A_5 \<and>
   dps_queue state_A_18 \<le> dps_queue state_A_5 \<and>
   no_more_parties state_A_5 \<and> no_more_parties state_A_18 \<and>
   step scenario_A (Work 0) state_A_18 = Some state_A_19 \<and>
   decrement state_A_18 state_A_19"
proof -
  have v: "valid_config scenario_A" by code_simp
  have e5: "exec scenario_A (take 5 schedule_A) (init scenario_A) = Some state_A_5"
    by code_simp
  have e18: "exec scenario_A (drop 5 (take 18 schedule_A)) state_A_5 = Some state_A_18"
    by code_simp
  have st: "step scenario_A (Work 0) state_A_18 = Some state_A_19" by code_simp
  have n: "no_more_parties state_A_5" by code_simp
  from termination_condition_monotone[OF v e5 e18] st n v e5 e18 show ?thesis by simp
qed

section \<open>Workers and their instances\<close>

lemma work_worker:
  assumes "work i s = Some s'" and "i < length (pcs s)"
    and "length (instances s) = length (pcs s)"
    and "worker_inv cfg (pcs s ! i) (instances s ! i)"
  shows "worker_inv cfg (pcs s' ! i) (instances s' ! i)"
    and "\<forall>j. j \<noteq> i \<longrightarrow> pcs s' ! j = pcs s ! j \<and> instances s' ! j = instances s ! j"
  using assms(1)
  by (cases rule: work_cases;
      use assms(2-) in \<open>simp add: goto_def upd_instance_def worker_inv_def algebra_simps\<close>)+

lemma workers_inv_step:
  assumes "workers_inv cfg s" and "step cfg a s = Some s'"
  shows "workers_inv cfg s'"
proof -
  from assms(1) have len: "length (instances s) = length (pcs s)"
    and n: "length (pcs s) = nat (max_instances cfg)"
    and all: "\<And>i. i < length (pcs s) \<Longrightarrow> worker_inv cfg (pcs s ! i) (instances s ! i)"
    by (simp_all add: workers_inv_def)
  from step_length[OF assms(2)] len n
  have len': "length (instances s') = length (pcs s')" "length (pcs s') = nat (max_instances cfg)"
    "length (pcs s') = length (pcs s)"
    by simp_all
  have "worker_inv cfg (pcs s' ! k) (instances s' ! k)" if k: "k < length (pcs s)" for k
    using assms(2)
  proof (cases rule: step_cases)
    case (Work i)
    from work_worker[OF Work(3,2) len all[OF Work(2)]] all[OF k]
    show ?thesis by (cases "k = i") simp_all
  next
    case (Draw i r)
    with all[OF k] all[OF Draw(2)] show ?thesis
      by (cases "k = i") (simp_all add: goto_def worker_inv_def)
  next
    case (Signal_none i)
    with all[OF k] all[OF Signal_none(2)] show ?thesis
      by (cases "k = i") (simp_all add: goto_def worker_inv_def)
  next
    case (Signal_some i j)
    with all[OF k] all[OF Signal_some(2)] all[OF Signal_some(4)] show ?thesis
      by (cases "k = i"; cases "k = j") (simp_all add: goto_def worker_inv_def)
  next
    case (Spurious j)
    with all[OF k] all[OF Spurious(2)] show ?thesis
      by (cases "k = j") (simp_all add: goto_def worker_inv_def)
  qed (use all[OF k] in simp_all)
  with len' show ?thesis by (simp add: workers_inv_def)
qed

lemma workers_inv_init: "workers_inv cfg (init cfg)"
  by (simp add: workers_inv_def worker_inv_def init_def new_instance_def)

lemma workers_inv_exec: "exec cfg sched (init cfg) = Some s \<Longrightarrow> workers_inv cfg s"
  by (induction rule: exec_induct) (auto intro: workers_inv_init workers_inv_step)

section \<open>Conservation\<close>

lemma sum_list_map_update:
  fixes f :: "'a \<Rightarrow> int"
  shows "i < length xs \<Longrightarrow> sum_list (map f (xs[i := x])) = sum_list (map f xs) - f (xs ! i) + f x"
proof (induction xs arbitrary: i)
  case Nil
  then show ?case by simp
next
  case (Cons y ys)
  then show ?case by (cases i) simp_all
qed

lemma sum_list_map_zero:
  fixes f :: "'a \<Rightarrow> int"
  shows "(\<And>x. x \<in> set xs \<Longrightarrow> f x = 0) \<Longrightarrow> sum_list (map f xs) = 0"
  by (induction xs) simp_all

lemma sum_list_replicate_zero: "sum_list (replicate n (0::int)) = 0"
  by (induction n) simp_all

lemma work_tally:
  assumes "work i s = Some s'" and "i < length (pcs s)"
    and "length (instances s) = length (pcs s)" and "tally_inv cfg s"
  shows "tally_inv cfg s'"
  using assms(1)
  by (cases rule: work_cases)
    (use assms(2-) in \<open>simp_all add: goto_def upd_instance_def tally_inv_def total_parties_def
        sum_list_map_update\<close>)

lemma tally_inv_step:
  assumes "workers_inv cfg s" and "tally_inv cfg s" and "step cfg a s = Some s'"
  shows "tally_inv cfg s'"
  using assms(3)
proof (cases rule: step_cases)
  case (Work i)
  from assms(1) have "length (instances s) = length (pcs s)" by (simp add: workers_inv_def)
  from work_tally[OF Work(3,2) this assms(2)] show ?thesis .
next
  case (Signal_some i j)
  then have "i \<noteq> j" by auto
  with Signal_some assms(2) show ?thesis
    by (simp add: goto_def tally_inv_def total_parties_def sum_list_map_update)
qed (use assms(2) in \<open>simp_all add: goto_def tally_inv_def total_parties_def
      sum_list_map_update\<close>)

lemma tally_inv_init: "tally_inv cfg (init cfg)"
  by (simp add: tally_inv_def total_parties_def init_def new_instance_def
      sum_list_replicate_zero)

lemma tally_inv_exec:
  assumes "exec cfg sched (init cfg) = Some s"
  shows "workers_inv cfg s \<and> tally_inv cfg s"
  using assms
  by (induction rule: exec_induct)
    (auto intro: workers_inv_init workers_inv_step tally_inv_init tally_inv_step)

lemma inactive_no_debt:
  "\<not> active_pc p \<Longrightarrow> tank_debt p = 0 \<and> healer_debt p = 0 \<and> dps_debt p = 0"
  by (cases p) simp_all

lemma quiescent_no_debt:
  assumes "workers_inv cfg s" and "finished s \<or> allInstancesEmpty s"
  shows "sum_list (map tank_debt (pcs s)) = 0 \<and> sum_list (map healer_debt (pcs s)) = 0 \<and>
    sum_list (map dps_debt (pcs s)) = 0"
proof -
  have "\<not> active_pc p" if "p \<in> set (pcs s)" for p
  proof -
    from that obtain i where i: "i < length (pcs s)" "pcs s ! i = p"
      by (auto simp: in_set_conv_nth)
    from assms(2) show ?thesis
    proof
      assume "finished s"
      with that show ?thesis by (auto simp: finished_def)
    next
      assume e: "allInstancesEmpty s"
      from assms(1) i have "instances s ! i \<in> set (instances s)"
        and "is_active (instances s ! i) = active_pc p"
        by (auto simp: workers_inv_def worker_inv_def)
      with e show ?thesis by (auto simp: allInstancesEmpty_def)
    qed
  qed
  then show ?thesis by (simp add: sum_list_map_zero inactive_no_debt)
qed

text \<open>
  C3: in every reachable state in which all threads have returned (the state of the final
  report) or in which no instance is active, the tanks withdrawn and the healers withdrawn
  both equal the sum of \<open>parties_served\<close> over all instances, and the dps withdrawn
  equal three times that sum.
\<close>

theorem conservation:
  assumes "exec cfg sched (init cfg) = Some s" and "finished s \<or> allInstancesEmpty s"
  shows "tanks0 cfg - tank_queue s = total_parties s \<and>
    healers0 cfg - healer_queue s = total_parties s \<and>
    dps0 cfg - dps_queue s = 3 * total_parties s"
proof -
  from tally_inv_exec[OF assms(1)] have w: "workers_inv cfg s" and t: "tally_inv cfg s"
    by simp_all
  from quiescent_no_debt[OF w assms(2)] t show ?thesis
    by (simp add: tally_inv_def)
qed

theorem conservation_witness:
  "exec scenario_B (take 32 schedule_B) (init scenario_B) = Some state_B_32 \<and>
   allInstancesEmpty state_B_32 \<and>
   exec scenario_B schedule_B (init scenario_B) = Some state_B_end \<and>
   finished state_B_end \<and>
   total_parties state_B_32 = 2 \<and> total_parties state_B_end = 2 \<and>
   tanks0 scenario_B - tank_queue state_B_32 = 2 \<and>
   healers0 scenario_B - healer_queue state_B_32 = 2 \<and>
   dps0 scenario_B - dps_queue state_B_32 = 3 * 2 \<and>
   tanks0 scenario_B - tank_queue state_B_end = 2 \<and>
   healers0 scenario_B - healer_queue state_B_end = 2 \<and>
   dps0 scenario_B - dps_queue state_B_end = 3 * 2"
proof -
  have e32: "exec scenario_B (take 32 schedule_B) (init scenario_B) = Some state_B_32"
    by code_simp
  have q32: "allInstancesEmpty state_B_32" by code_simp
  have e: "exec scenario_B schedule_B (init scenario_B) = Some state_B_end" by code_simp
  have f: "finished state_B_end" by code_simp
  have t32: "total_parties state_B_32 = 2" by code_simp
  have t: "total_parties state_B_end = 2" by code_simp
  from conservation[OF e32 disjI2[OF q32]] conservation[OF e disjI1[OF f]] e32 q32 e f t32 t
  show ?thesis by simp
qed

section \<open>The reservation\<close>

lemma work_not_owner:
  assumes "work j s = Some s'" and "\<not> holds_mtx (pcs s ! j)" and "mtx s = Some (Worker i)"
  shows "tank_queue s' = tank_queue s \<and> healer_queue s' = healer_queue s \<and>
    dps_queue s' = dps_queue s \<and> instances s' = instances s \<and> mtx s' = mtx s \<and>
    (\<forall>k. k \<noteq> j \<longrightarrow> pcs s' ! k = pcs s ! k)"
  using assms(1)
  by (cases rule: work_cases) (use assms(2,3) in \<open>simp_all add: goto_def\<close>)

lemma others_cannot_interfere:
  assumes "lock_inv s" and "mtx s = Some (Worker i)" and "step cfg a s = Some s'"
    and "actor a \<noteq> Worker i"
  shows "tank_queue s' = tank_queue s \<and> healer_queue s' = healer_queue s \<and>
    dps_queue s' = dps_queue s \<and> instances s' = instances s \<and> mtx s' = Some (Worker i) \<and>
    pcs s' ! i = pcs s ! i"
proof -
  have free: "\<not> holds_mtx (pcs s ! j)" if "j < length (pcs s)" "j \<noteq> i" for j
    using assms(1,2) that by (auto simp: lock_inv_def)
  have mon: "mon s \<noteq> MCheck99" using assms(1,2) by (auto simp: lock_inv_def)
  from assms(3) show ?thesis
  proof (cases rule: step_cases)
    case (Work j)
    with assms(4) have ji: "j \<noteq> i" by auto
    from work_not_owner[OF Work(3) free[OF Work(2) ji] assms(2)] ji assms(2)
    show ?thesis by auto
  next
    case (Draw j r)
    with assms(2,4) show ?thesis by (auto simp: goto_def)
  next
    case (Signal_none j)
    with assms(4) free[of j] show ?thesis by auto
  next
    case (Signal_some j k)
    with assms(4) free[of j] show ?thesis by auto
  next
    case (Spurious j)
    with assms(2,4) show ?thesis by (auto simp: goto_def)
  qed (use assms(2) mon in simp_all)
qed

lemma work_stopped:
  assumes "work j s = Some s'" and "pcs s ! i = Stopped"
  shows "pcs s' ! i = Stopped"
proof -
  from assms have "i \<noteq> j" by (auto simp: work_def)
  with assms(1) show ?thesis
    by (cases rule: work_cases) (use assms(2) in \<open>simp_all add: goto_def upd_instance_def\<close>)
qed

lemma step_stopped:
  assumes "step cfg a s = Some s'" and "pcs s ! i = Stopped"
  shows "pcs s' ! i = Stopped"
  using assms(1)
proof (cases rule: step_cases)
  case (Work j)
  from work_stopped[OF Work(3) assms(2)] show ?thesis .
next
  case (Draw j r)
  with assms(2) have "i \<noteq> j" by auto
  with Draw assms(2) show ?thesis by (simp add: goto_def)
next
  case (Signal_none j)
  with assms(2) have "i \<noteq> j" by auto
  with Signal_none assms(2) show ?thesis by (simp add: goto_def)
next
  case (Signal_some j k)
  with assms(2) have "i \<noteq> j" "i \<noteq> k" by auto
  with Signal_some assms(2) show ?thesis by (simp add: goto_def)
next
  case (Spurious j)
  with assms(2) have "i \<noteq> j" by auto
  with Spurious assms(2) show ?thesis by (simp add: goto_def)
qed (use assms(2) in simp_all)

lemma exec_stopped:
  assumes "exec cfg rest s = Some s'" and "pcs s ! i = Stopped"
  shows "pcs s' ! i = Stopped"
  using assms by (induction rule: exec_induct) (auto intro: step_stopped)

lemma reserve_party:
  assumes "i < length (pcs s)" and "pcs s ! i = Wait39" and "party_available s"
  shows "exec cfg (replicate 7 (Work i)) s =
    Some (s\<lparr>tank_queue := tank_queue s - 1, healer_queue := healer_queue s - 1,
            dps_queue := dps_queue s - 3,
            instances := (instances s)[i := (instances s ! i)\<lparr>is_active := True\<rparr>],
            mtx := None, pcs := (pcs s)[i := Sample58]\<rparr>)"
  using assms
  by (simp add: numeral_eq_Suc step_def work_def goto_def upd_instance_def wait_pred_def
      no_more_parties_def party_available_def)

lemma reserve_nothing:
  assumes "i < length (pcs s)" and "pcs s ! i = Wait39" and "no_more_parties s"
  shows "exec cfg (replicate 2 (Work i)) s = Some (s\<lparr>mtx := None, pcs := (pcs s)[i := Stopped]\<rparr>)"
  using assms
  by (simp add: numeral_eq_Suc step_def work_def goto_def wait_pred_def no_more_parties_def)

text \<open>
  C2: a worker at the wait of line 39, in a state that a valid configuration can reach,
  owns the mutex. If a full party is available, its next seven steps take one tank, one
  healer and three dps, mark its instance active, release the mutex and leave it at the
  simulated run (line 58), everything else unchanged. Otherwise the termination condition
  holds, and its next two steps release the mutex and end the thread with everything else
  unchanged; from then on, whatever the other threads do, the worker stays returned and
  has no step. The reservation is atomic: in every later state in which the worker is
  inside a critical section it owns the mutex, and no step of another thread changes a
  counter, an instance, the owner of the mutex or the worker's control point.
\<close>

theorem reservation:
  assumes "valid_config cfg" and "exec cfg sched (init cfg) = Some s"
    and "i < length (pcs s)" and "pcs s ! i = Wait39"
  shows "mtx s = Some (Worker i) \<and>
    (party_available s \<longrightarrow>
       exec cfg (replicate 7 (Work i)) s =
         Some (s\<lparr>tank_queue := tank_queue s - 1, healer_queue := healer_queue s - 1,
                 dps_queue := dps_queue s - 3,
                 instances := (instances s)[i := (instances s ! i)\<lparr>is_active := True\<rparr>],
                 mtx := None, pcs := (pcs s)[i := Sample58]\<rparr>)) \<and>
    (\<not> party_available s \<longrightarrow>
       no_more_parties s \<and>
       exec cfg (replicate 2 (Work i)) s = Some (s\<lparr>mtx := None, pcs := (pcs s)[i := Stopped]\<rparr>) \<and>
       (\<forall>rest u. exec cfg rest (s\<lparr>mtx := None, pcs := (pcs s)[i := Stopped]\<rparr>) = Some u \<longrightarrow>
          pcs u ! i = Stopped \<and> step cfg (Work i) u = None)) \<and>
    (\<forall>rest u. exec cfg rest s = Some u \<and> holds_mtx (pcs u ! i) \<longrightarrow>
       mtx u = Some (Worker i) \<and>
       (\<forall>a u'. actor a \<noteq> Worker i \<and> step cfg a u = Some u' \<longrightarrow>
          tank_queue u' = tank_queue u \<and> healer_queue u' = healer_queue u \<and>
          dps_queue u' = dps_queue u \<and> instances u' = instances u \<and>
          mtx u' = Some (Worker i) \<and> pcs u' ! i = pcs u ! i))"
proof -
  from pool_inv_exec[OF assms(1,2)] have l: "lock_inv s" and p: "pool_inv cfg s" by simp_all
  from l assms(3,4) have own: "mtx s = Some (Worker i)" by (simp add: lock_inv_def)
  have party: "exec cfg (replicate 7 (Work i)) s =
         Some (s\<lparr>tank_queue := tank_queue s - 1, healer_queue := healer_queue s - 1,
                 dps_queue := dps_queue s - 3,
                 instances := (instances s)[i := (instances s ! i)\<lparr>is_active := True\<rparr>],
                 mtx := None, pcs := (pcs s)[i := Sample58]\<rparr>)"
    if "party_available s"
    using reserve_party[OF assms(3,4) that] .
  have none: "no_more_parties s \<and>
       exec cfg (replicate 2 (Work i)) s = Some (s\<lparr>mtx := None, pcs := (pcs s)[i := Stopped]\<rparr>) \<and>
       (\<forall>rest u. exec cfg rest (s\<lparr>mtx := None, pcs := (pcs s)[i := Stopped]\<rparr>) = Some u \<longrightarrow>
          pcs u ! i = Stopped \<and> step cfg (Work i) u = None)"
    if "\<not> party_available s"
  proof -
    from p that have n: "no_more_parties s"
      by (auto simp: pool_inv_def party_available_def no_more_parties_def)
    have "pcs u ! i = Stopped \<and> step cfg (Work i) u = None"
      if "exec cfg rest (s\<lparr>mtx := None, pcs := (pcs s)[i := Stopped]\<rparr>) = Some u" for rest u
    proof -
      from assms(3) have "pcs (s\<lparr>mtx := None, pcs := (pcs s)[i := Stopped]\<rparr>) ! i = Stopped"
        by simp
      from exec_stopped[OF that this] show ?thesis by (simp add: step_def work_def)
    qed
    with n reserve_nothing[OF assms(3,4) n] show ?thesis by blast
  qed
  have atomic: "mtx u = Some (Worker i) \<and>
       (\<forall>a u'. actor a \<noteq> Worker i \<and> step cfg a u = Some u' \<longrightarrow>
          tank_queue u' = tank_queue u \<and> healer_queue u' = healer_queue u \<and>
          dps_queue u' = dps_queue u \<and> instances u' = instances u \<and>
          mtx u' = Some (Worker i) \<and> pcs u' ! i = pcs u ! i)"
    if "exec cfg rest s = Some u" "holds_mtx (pcs u ! i)" for rest u
  proof -
    from exec_reachable[OF assms(2) that(1)] have lu: "lock_inv u" by (rule lock_inv_exec)
    from exec_length[OF that(1)] assms(3) have "i < length (pcs u)" by simp
    with lu that(2) have "mtx u = Some (Worker i)" by (simp add: lock_inv_def)
    with others_cannot_interfere[OF lu this] show ?thesis by blast
  qed
  from own party none atomic show ?thesis by blast
qed

theorem reservation_witness:
  "valid_config scenario_B \<and> valid_config scenario_C \<and>
   exec scenario_B schedule_B2 (init scenario_B) = Some state_B2_9 \<and>
   pcs state_B2_9 ! 0 = Wait39 \<and> mtx state_B2_9 = Some (Worker 0) \<and>
   party_available state_B2_9 \<and>
   exec scenario_B (replicate 7 (Work 0)) state_B2_9 = Some state_B2_16 \<and>
   exec scenario_B [Work 0, Work 0] state_B2_9 = Some state_B2_11 \<and>
   holds_mtx (pcs state_B2_11 ! 0) \<and> mtx state_B2_11 = Some (Worker 0) \<and>
   actor (Draw 1 1) \<noteq> Worker 0 \<and>
   step scenario_B (Draw 1 1) state_B2_11 = Some state_B2_12 \<and>
   tank_queue state_B2_12 = tank_queue state_B2_11 \<and>
   instances state_B2_12 = instances state_B2_11 \<and>
   mtx state_B2_12 = Some (Worker 0) \<and>
   exec scenario_C (take 1 schedule_C) (init scenario_C) = Some state_C_1 \<and>
   pcs state_C_1 ! 0 = Wait39 \<and> \<not> party_available state_C_1 \<and>
   no_more_parties state_C_1 \<and>
   exec scenario_C (replicate 2 (Work 0)) state_C_1 = Some state_C_3 \<and>
   exec scenario_C (replicate 3 (Work 1)) state_C_3 = Some state_C_6 \<and>
   pcs state_C_6 ! 0 = Stopped \<and> step scenario_C (Work 0) state_C_6 = None"
proof -
  have vB: "valid_config scenario_B" and vC: "valid_config scenario_C" by code_simp+
  have eB: "exec scenario_B schedule_B2 (init scenario_B) = Some state_B2_9" by code_simp
  have iB: "0 < length (pcs state_B2_9)" and wB: "pcs state_B2_9 ! 0 = Wait39"
    and aB: "party_available state_B2_9"
    by code_simp+
  have rB: "state_B2_9\<lparr>tank_queue := tank_queue state_B2_9 - 1,
      healer_queue := healer_queue state_B2_9 - 1, dps_queue := dps_queue state_B2_9 - 3,
      instances := (instances state_B2_9)[0 := (instances state_B2_9 ! 0)\<lparr>is_active := True\<rparr>],
      mtx := None, pcs := (pcs state_B2_9)[0 := Sample58]\<rparr> = state_B2_16"
    by code_simp
  have mB: "exec scenario_B [Work 0, Work 0] state_B2_9 = Some state_B2_11"
    and hB: "holds_mtx (pcs state_B2_11 ! 0)" and oB: "actor (Draw 1 1) \<noteq> Worker 0"
    and dB: "step scenario_B (Draw 1 1) state_B2_11 = Some state_B2_12"
    by code_simp+
  have eC: "exec scenario_C (take 1 schedule_C) (init scenario_C) = Some state_C_1"
    by code_simp
  have iC: "0 < length (pcs state_C_1)" and wC: "pcs state_C_1 ! 0 = Wait39"
    and aC: "\<not> party_available state_C_1"
    by code_simp+
  have rC: "state_C_1\<lparr>mtx := None, pcs := (pcs state_C_1)[0 := Stopped]\<rparr> = state_C_3"
    by code_simp
  have mC: "exec scenario_C (replicate 3 (Work 1)) state_C_3 = Some state_C_6" by code_simp
  note B = reservation[OF vB eB iB wB]
  note C = reservation[OF vC eC iC wC]
  from B have 1: "mtx state_B2_9 = Some (Worker 0)" by blast
  from B aB rB have 2: "exec scenario_B (replicate 7 (Work 0)) state_B2_9 = Some state_B2_16"
    by simp
  from B mB hB oB dB have 3: "mtx state_B2_11 = Some (Worker 0) \<and>
    tank_queue state_B2_12 = tank_queue state_B2_11 \<and>
    instances state_B2_12 = instances state_B2_11 \<and> mtx state_B2_12 = Some (Worker 0)"
    by blast
  from C aC rC have 4: "no_more_parties state_C_1 \<and>
    exec scenario_C (replicate 2 (Work 0)) state_C_1 = Some state_C_3"
    by simp
  from C aC rC mC have 5: "pcs state_C_6 ! 0 = Stopped \<and> step scenario_C (Work 0) state_C_6 = None"
    by simp
  from vB vC eB wB aB mB hB oB dB eC wC aC mC 1 2 3 4 5 show ?thesis by blast
qed

section \<open>Notifications\<close>

lemma work_notifications:
  assumes "work i s = Some s'"
  shows "notifications s' = notifications s"
  using assms by (cases rule: work_cases) (simp_all add: goto_def upd_instance_def)

lemma step_notifications:
  assumes "step cfg a s = Some s'"
  shows "notifications s' =
    (case a of Signal i w \<Rightarrow> Suc (notifications s) | _ \<Rightarrow> notifications s)"
  using assms by (cases rule: step_cases) (simp_all add: work_notifications goto_def)

text \<open>
  C7, as stated, fails: in \<open>scenario_C\<close> the first worker finds the termination
  condition at line 45 while the two others wait for the mutex, and its next step is the
  return: the count of notifications stays as it is and the others stay where they are.
  All three workers return in this way, and the run ends without a single notification.
\<close>

theorem exit_without_notify:
  "exec scenario_C (take 2 schedule_C) (init scenario_C) = Some state_C_2 \<and>
   pcs state_C_2 = [Check45, Lock36, Lock36] \<and> no_more_parties state_C_2 \<and>
   step scenario_C (Work 0) state_C_2 = Some state_C_3 \<and>
   pcs state_C_3 = [Stopped, Lock36, Lock36] \<and>
   notifications state_C_2 = 0 \<and> notifications state_C_3 = 0 \<and>
   simulate scenario_C schedule_C = Some state_C_end \<and>
   pcs state_C_end = [Stopped, Stopped, Stopped] \<and> notifications state_C_end = 0"
  by code_simp

text \<open>
  C7, amended: on the no-party exit path the worker does not notify; it releases the mutex
  and returns, and nothing else changes. \<open>cv.notify_one()\<close> is called only at line 68,
  once for every recorded run: in every state that a valid configuration can reach, the
  calls made so far and the runs recorded but not yet announced add up to the sum of
  \<open>parties_served\<close>, so that the calls equal the parties served once every thread has
  returned. No worker is ever blocked on the condition variable, so there is no waiter
  that a notification on the exit path could wake.
\<close>

theorem notify_only_after_run:
  assumes "valid_config cfg" and "exec cfg sched (init cfg) = Some s"
  shows "int (notifications s) + sum_list (map unannounced (pcs s)) = total_parties s \<and>
    (finished s \<longrightarrow> int (notifications s) = total_parties s) \<and>
    Parked \<notin> set (pcs s) \<and>
    (\<forall>i < length (pcs s). pcs s ! i = Check45 \<and> no_more_parties s \<longrightarrow>
       step cfg (Work i) s = Some (goto i Stopped (s\<lparr>mtx := None\<rparr>))) \<and>
    (\<forall>a s'. step cfg a s = Some s' \<longrightarrow>
       notifications s' =
         (case a of Signal i w \<Rightarrow> Suc (notifications s) | _ \<Rightarrow> notifications s))"
proof -
  from tally_inv_exec[OF assms(2)]
  have t: "int (notifications s) + sum_list (map unannounced (pcs s)) = total_parties s"
    by (simp add: tally_inv_def)
  have "sum_list (map unannounced (pcs s)) = 0" if "finished s"
    using that by (intro sum_list_map_zero) (auto simp: finished_def)
  with t have f: "finished s \<longrightarrow> int (notifications s) = total_parties s" by auto
  from awake_exec[OF assms] have p: "Parked \<notin> set (pcs s)" by (simp add: awake_def)
  from t f p step_notifications show ?thesis
    by (simp add: step_def work_def)
qed

theorem notify_only_after_run_witness:
  "valid_config scenario_C \<and> valid_config scenario_B \<and>
   exec scenario_C (take 2 schedule_C) (init scenario_C) = Some state_C_2 \<and>
   pcs state_C_2 ! 0 = Check45 \<and> no_more_parties state_C_2 \<and>
   step scenario_C (Work 0) state_C_2 = Some (goto 0 Stopped (state_C_2\<lparr>mtx := None\<rparr>)) \<and>
   exec scenario_B (take 23 schedule_B) (init scenario_B) = Some state_B_23 \<and>
   step scenario_B (Signal 1 None) state_B_23 = Some state_B_24 \<and>
   notifications state_B_24 = Suc (notifications state_B_23) \<and>
   exec scenario_B schedule_B (init scenario_B) = Some state_B_end \<and>
   finished state_B_end \<and> int (notifications state_B_end) = total_parties state_B_end"
proof -
  have vC: "valid_config scenario_C" and vB: "valid_config scenario_B" by code_simp+
  have eC: "exec scenario_C (take 2 schedule_C) (init scenario_C) = Some state_C_2"
    by code_simp
  have i: "0 < length (pcs state_C_2)" and c: "pcs state_C_2 ! 0 = Check45"
    and n: "no_more_parties state_C_2"
    by code_simp+
  have eB: "exec scenario_B (take 23 schedule_B) (init scenario_B) = Some state_B_23"
    by code_simp
  have sB: "step scenario_B (Signal 1 None) state_B_23 = Some state_B_24" by code_simp
  have eE: "exec scenario_B schedule_B (init scenario_B) = Some state_B_end" by code_simp
  have f: "finished state_B_end" by code_simp
  from notify_only_after_run[OF vC eC] i c n
  have 1: "step scenario_C (Work 0) state_C_2 = Some (goto 0 Stopped (state_C_2\<lparr>mtx := None\<rparr>))"
    by blast
  from notify_only_after_run[OF vB eB] sB
  have 2: "notifications state_B_24 = Suc (notifications state_B_23)" by fastforce
  from notify_only_after_run[OF vB eE] f
  have 3: "int (notifications state_B_end) = total_parties state_B_end" by blast
  from vC vB eC c n eB sB eE f 1 2 3 show ?thesis by blast
qed

section \<open>Validation of the configuration\<close>

lemma read_config_valid: "read_config inp = Inr cfg \<Longrightarrow> valid_config cfg"
  by (cases inp) (auto simp: valid_config_def split: if_splits)

text \<open>
  C9: the six values read are rejected exactly when they violate one of \<open>N > 0\<close>,
  \<open>T, H, D, T1, T2 \<ge> 0\<close>, \<open>T1 \<le> T2\<close>, \<open>T2 \<le> 15\<close>, and are otherwise the
  configuration. On rejected values, on a file that cannot be opened and on a file that
  cannot be read, \<open>main\<close> reports the error and returns 1 whatever the schedule, without
  a \<open>DungeonManager\<close> having been constructed or run; on an accepted configuration,
  whenever \<open>main\<close> returns, it returns 0 after a completed \<open>simulate\<close>.
\<close>

theorem validation:
  "(read_config (Values n t h d t1 t2) = Inl Invalid_values \<longleftrightarrow>
      \<not> (n > 0 \<and> t \<ge> 0 \<and> h \<ge> 0 \<and> d \<ge> 0 \<and> t1 \<ge> 0 \<and> t2 \<ge> 0 \<and> t1 \<le> t2 \<and> t2 \<le> 15)) \<and>
   (n > 0 \<and> t \<ge> 0 \<and> h \<ge> 0 \<and> d \<ge> 0 \<and> t1 \<ge> 0 \<and> t2 \<ge> 0 \<and> t1 \<le> t2 \<and> t2 \<le> 15 \<longrightarrow>
      read_config (Values n t h d t1 t2) =
        Inr \<lparr>max_instances = n, tanks0 = t, healers0 = h, dps0 = d,
             min_time = t1, max_time = t2\<rparr>) \<and>
   read_config Missing = Inl Unable_to_open \<and> read_config Malformed = Inl Error_reading \<and>
   (\<forall>e. read_config inp = Inl e \<longrightarrow> main inp sched = Some (1, Some e, None)) \<and>
   (\<forall>cfg. read_config inp = Inr cfg \<longrightarrow>
      valid_config cfg \<and>
      main inp sched = map_option (\<lambda>s. (0, None, Some s)) (simulate cfg sched))"
  by (auto simp: main_def read_config_valid split: option.splits)

theorem validation_witness:
  "read_config (Values 0 1 1 3 0 0) = Inl Invalid_values \<and>
   main (Values 0 1 1 3 0 0) schedule_A = Some (1, Some Invalid_values, None) \<and>
   main (Values 1 1 1 3 2 1) schedule_A = Some (1, Some Invalid_values, None) \<and>
   main (Values 1 1 1 3 0 16) schedule_A = Some (1, Some Invalid_values, None) \<and>
   main Missing schedule_A = Some (1, Some Unable_to_open, None) \<and>
   main Malformed schedule_A = Some (1, Some Error_reading, None) \<and>
   read_config (Values 1 1 1 3 0 0) = Inr scenario_A \<and>
   valid_config scenario_A \<and>
   main (Values 1 1 1 3 0 0) schedule_A = Some (0, None, Some state_A_end)"
proof -
  have a: "read_config (Values 1 1 1 3 0 0) = Inr scenario_A" by code_simp
  have s: "simulate scenario_A schedule_A = Some state_A_end" by code_simp
  have b: "read_config (Values 0 1 1 3 0 0) = Inl Invalid_values"
    using validation[of 0 1 1 3 0 0] by simp
  have c: "read_config (Values 1 1 1 3 2 1) = Inl Invalid_values"
    using validation[of 1 1 1 3 2 1] by simp
  have d: "read_config (Values 1 1 1 3 0 16) = Inl Invalid_values"
    using validation[of 1 1 1 3 0 16] by simp
  from validation[of 0 1 1 3 0 0 "Values 0 1 1 3 0 0" schedule_A] b
  have 1: "main (Values 0 1 1 3 0 0) schedule_A = Some (1, Some Invalid_values, None)"
    by blast
  from validation[of 0 1 1 3 0 0 "Values 1 1 1 3 2 1" schedule_A] c
  have 2: "main (Values 1 1 1 3 2 1) schedule_A = Some (1, Some Invalid_values, None)"
    by blast
  from validation[of 0 1 1 3 0 0 "Values 1 1 1 3 0 16" schedule_A] d
  have 3: "main (Values 1 1 1 3 0 16) schedule_A = Some (1, Some Invalid_values, None)"
    by blast
  from validation[of 0 1 1 3 0 0 Missing schedule_A]
  have 4: "main Missing schedule_A = Some (1, Some Unable_to_open, None)" by simp
  from validation[of 0 1 1 3 0 0 Malformed schedule_A]
  have 5: "main Malformed schedule_A = Some (1, Some Error_reading, None)" by simp
  from validation[of 0 1 1 3 0 0 "Values 1 1 1 3 0 0" schedule_A] a s
  have 6: "valid_config scenario_A \<and>
    main (Values 1 1 1 3 0 0) schedule_A = Some (0, None, Some state_A_end)" by simp
  from a b 1 2 3 4 5 6 show ?thesis by blast
qed

section \<open>The scenarios\<close>

text \<open>
  C5: with one instance, one tank, one healer, three dps and runs of zero seconds, the
  program can run to its end, and whenever it does, the single instance reports one party
  served and a busy time of zero, and the three queues are empty.
\<close>

theorem scenario_A_result:
  "simulate scenario_A schedule_A = Some state_A_end \<and>
   (\<forall>sched s. simulate scenario_A sched = Some s \<longrightarrow>
      instances s = [\<lparr>is_active = False, parties_served = 1, total_time = 0\<rparr>] \<and>
      tank_queue s = 0 \<and> healer_queue s = 0 \<and> dps_queue s = 0)"
proof -
  have v: "valid_config scenario_A" by code_simp
  have run: "simulate scenario_A schedule_A = Some state_A_end" by code_simp
  have "instances s = [\<lparr>is_active = False, parties_served = 1, total_time = 0\<rparr>] \<and>
      tank_queue s = 0 \<and> healer_queue s = 0 \<and> dps_queue s = 0"
    if "simulate scenario_A sched = Some s" for sched s
  proof -
    from that have e: "exec scenario_A sched (init scenario_A) = Some s" and f: "finished s"
      by (auto simp: simulate_def split: option.splits if_splits)
    from tally_inv_exec[OF e] have w: "workers_inv scenario_A s" and t: "tally_inv scenario_A s"
      by simp_all
    from w have "length (pcs s) = 1" "length (instances s) = 1"
      by (simp_all add: workers_inv_def scenario_A_def)
    then obtain p x where px: "pcs s = [p]" "instances s = [x]"
      by (auto simp: length_Suc_conv)
    from f px have p: "p = Stopped" by (simp add: finished_def)
    from w px p have x: "\<not> is_active x" "0 \<le> total_time x" "total_time x \<le> 0"
      by (simp_all add: workers_inv_def worker_inv_def scenario_A_def)
    from pool_inv_exec[OF v e] have nn: "0 \<le> tank_queue s" "0 \<le> healer_queue s" "0 \<le> dps_queue s"
      by (simp_all add: pool_inv_def)
    from stop_inv_exec[OF v e] px p have n: "no_more_parties s"
      by (simp add: stop_inv_def)
    from t px p have c: "1 - tank_queue s = parties_served x"
      "1 - healer_queue s = parties_served x" "3 - dps_queue s = 3 * parties_served x"
      by (simp_all add: tally_inv_def total_parties_def scenario_A_def)
    from c nn n have "parties_served x = 1"
      by (auto simp: no_more_parties_def)
    with c x px show ?thesis by (cases x) simp
  qed
  with run show ?thesis by blast
qed

theorem scenario_A_result_witness:
  "simulate scenario_A schedule_A = Some state_A_end \<and>
   instances state_A_end = [\<lparr>is_active = False, parties_served = 1, total_time = 0\<rparr>] \<and>
   tank_queue state_A_end = 0 \<and> healer_queue state_A_end = 0 \<and> dps_queue state_A_end = 0"
  using scenario_A_result by blast

lemma in_set_updateD: "p \<in> set (xs[i := q]) \<Longrightarrow> p = q \<or> p \<in> set xs"
  using set_update_subset_insert[of xs i q] by auto

lemma untouched_no_more_parties:
  "untouched cfg s \<Longrightarrow> no_more_parties s = no_more_parties (init cfg)"
  by (simp add: untouched_def no_more_parties_def init_def)

lemma work_untouched:
  assumes "work i s = Some s'" and "before_check (pcs s ! i)"
    and "no_more_parties s" and "untouched cfg s"
  shows "untouched cfg s'"
  using assms(1)
  by (cases rule: work_cases)
    (use assms(2-) in \<open>auto simp: goto_def untouched_def wait_pred_def dest!: in_set_updateD\<close>)

lemma untouched_step:
  assumes "no_more_parties (init cfg)" and "untouched cfg s" and "step cfg a s = Some s'"
  shows "untouched cfg s'"
proof -
  from assms(1,2) have n: "no_more_parties s" by (simp add: untouched_no_more_parties)
  from assms(2) have bc: "before_check (pcs s ! i)" if "i < length (pcs s)" for i
    using that by (simp add: untouched_def)
  from assms(3) show ?thesis
  proof (cases rule: step_cases)
    case (Work i)
    from work_untouched[OF Work(3) bc[OF Work(2)] n assms(2)] show ?thesis .
  next
    case (Draw i r)
    with bc[of i] show ?thesis by simp
  next
    case (Signal_none i)
    with bc[of i] show ?thesis by simp
  next
    case (Signal_some i j)
    with bc[of i] show ?thesis by simp
  next
    case (Spurious j)
    with bc[of j] show ?thesis by simp
  qed (use assms(2) in \<open>simp_all add: untouched_def\<close>)
qed

lemma untouched_init: "untouched cfg (init cfg)"
  by (simp add: untouched_def init_def)

lemma untouched_exec:
  assumes "no_more_parties (init cfg)" and "exec cfg sched (init cfg) = Some s"
  shows "untouched cfg s"
  using assms(2)
  by (induction rule: exec_induct) (auto intro: untouched_init untouched_step assms(1))

lemma three_steps:
  assumes "k < length (pcs s)" and "pcs s ! k = Lock36" and "mtx s = None"
    and "no_more_parties s"
  shows "exec cfg [Work k, Work k, Work k] s = Some (goto k Stopped s)"
  using assms
  by (cases s)
    (simp add: step_def work_def goto_def wait_pred_def no_more_parties_def party_available_def)

lemma replicate_update:
  assumes "k < n"
  shows "(replicate k a @ replicate (n - k) b)[k := a] =
     replicate (Suc k) a @ replicate (n - Suc k) b"
proof -
  from assms obtain m where m: "n - k = Suc m" "n - Suc k = m"
    by (metis Suc_diff_Suc)
  then show ?thesis
    by (simp add: list_update_append replicate_app_Cons_same)
qed

lemma idle_prefix:
  assumes "no_more_parties (init cfg)" and "k \<le> nat (max_instances cfg)"
  shows "exec cfg (concat (map (\<lambda>i. [Work i, Work i, Work i]) [0..<k])) (init cfg) =
    Some ((init cfg)\<lparr>pcs := replicate k Stopped @
                              replicate (nat (max_instances cfg) - k) Lock36\<rparr>)"
  using assms(2)
proof (induction k)
  case 0
  show ?case by (simp add: init_def)
next
  case (Suc k)
  let ?n = "nat (max_instances cfg)"
  let ?s = "(init cfg)\<lparr>pcs := replicate k Stopped @ replicate (?n - k) Lock36\<rparr>"
  from Suc.prems have k: "k < ?n" by simp
  with Suc.IH
  have ih: "exec cfg (concat (map (\<lambda>i. [Work i, Work i, Work i]) [0..<k])) (init cfg) = Some ?s"
    by simp
  from k have at: "pcs ?s ! k = Lock36" by (simp add: nth_append)
  from k have len: "k < length (pcs ?s)" by simp
  have free: "mtx ?s = None" by (simp add: init_def)
  from assms(1) have n: "no_more_parties ?s" by (simp add: no_more_parties_def init_def)
  from three_steps[OF len at free n]
  have "exec cfg [Work k, Work k, Work k] ?s =
    Some ((init cfg)\<lparr>pcs := (replicate k Stopped @ replicate (?n - k) Lock36)[k := Stopped]\<rparr>)"
    by (simp add: goto_def)
  with replicate_update[OF k, of Stopped Lock36]
  have "exec cfg [Work k, Work k, Work k] ?s =
    Some ((init cfg)\<lparr>pcs := replicate (Suc k) Stopped @ replicate (?n - Suc k) Lock36\<rparr>)"
    by simp
  with ih show ?case by (simp add: exec_append del: exec.simps)
qed

lemma idle_run:
  assumes "no_more_parties (init cfg)"
  shows "simulate cfg (idle_schedule (nat (max_instances cfg))) =
    Some ((init cfg)\<lparr>pcs := replicate (nat (max_instances cfg)) Stopped, mon := MStopped\<rparr>)"
proof -
  let ?n = "nat (max_instances cfg)"
  let ?s = "(init cfg)\<lparr>pcs := replicate ?n Stopped\<rparr>"
  from idle_prefix[OF assms, of ?n]
  have 1: "exec cfg (concat (map (\<lambda>i. [Work i, Work i, Work i]) [0..<?n])) (init cfg) = Some ?s"
    by simp
  from assms have n: "no_more_parties ?s" by (simp add: no_more_parties_def init_def)
  have e: "allInstancesEmpty ?s" by (simp add: allInstancesEmpty_def init_def new_instance_def)
  from n e have 2: "exec cfg [Observe, Observe] ?s = Some (?s\<lparr>mon := MStopped\<rparr>)"
    by (simp add: step_def observe_def init_def no_more_parties_def allInstancesEmpty_def)
  have 3: "finished (?s\<lparr>mon := MStopped\<rparr>)" by (simp add: finished_def)
  from 1 2 3 show ?thesis
    by (simp add: simulate_def idle_schedule_def exec_append del: exec.simps)
qed

lemma work_first_pass:
  assumes "work j s = Some s'" and "j < length (pcs s)" and "before_check (pcs s ! j)"
    and "no_more_parties s"
  shows "first_pass_steps (pcs s' ! i) = first_pass_steps (pcs s ! i) + (if i = j then 1 else 0)"
  using assms(1)
  by (cases rule: work_cases)
    (use assms(2-) in \<open>auto simp: goto_def wait_pred_def nth_list_update\<close>)

lemma step_first_pass:
  assumes "no_more_parties s" and "untouched cfg s" and "step cfg a s = Some s'"
    and "i < length (pcs s)"
  shows "first_pass_steps (pcs s' ! i) = first_pass_steps (pcs s ! i) + (if actor a = Worker i then 1 else 0)"
proof -
  from assms(2) have bc: "before_check (pcs s ! j)" if "j < length (pcs s)" for j
    using that by (simp add: untouched_def)
  from assms(3) show ?thesis
  proof (cases rule: step_cases)
    case (Work j)
    from work_first_pass[OF Work(3,2) bc[OF Work(2)] assms(1), of i] Work(1) show ?thesis by simp
  next
    case (Draw j r)
    with bc[of j] show ?thesis by simp
  next
    case (Signal_none j)
    with bc[of j] show ?thesis by simp
  next
    case (Signal_some j k)
    with bc[of j] show ?thesis by simp
  next
    case (Spurious j)
    with bc[of j] show ?thesis by simp
  qed simp_all
qed

lemma first_pass_exec:
  assumes "no_more_parties (init cfg)"
  shows "exec cfg sched (init cfg) = Some s \<Longrightarrow> i < length (pcs s) \<Longrightarrow>
    steps_of i sched = first_pass_steps (pcs s ! i)"
proof (induction sched arbitrary: s rule: rev_induct)
  case Nil
  then show ?case by (auto simp: steps_of_def init_def)
next
  case (snoc a as)
  from snoc.prems(1) obtain u where u: "exec cfg as (init cfg) = Some u"
    and st: "step cfg a u = Some s"
    by (auto simp: exec_snoc)
  from step_length[OF st] snoc.prems(2) have i: "i < length (pcs u)" by simp
  from untouched_exec[OF assms u] have un: "untouched cfg u" .
  with assms have n: "no_more_parties u" by (simp add: untouched_no_more_parties)
  from snoc.IH[OF u i] step_first_pass[OF n un st i] show ?case
    by (simp add: steps_of_def)
qed

text \<open>
  C6: when the initial counts satisfy the termination condition, the schedule that lets
  each worker take the mutex, test and return, and then the status thread, runs the
  program to its end with the initial state otherwise unchanged; and under every
  schedule, in every state reached, the three counters have their initial values, every
  instance is as constructed (no party served), and every worker is before its first test
  of line 45 or has returned, a worker at line 39 going on to line 45 and a worker at line
  45 returning. The steps a worker has taken are exactly those that lead to its control
  point on the first pass: it returns with its third step.
\<close>

theorem exhausted_from_start:
  assumes "tanks0 cfg = 0 \<or> healers0 cfg = 0 \<or> dps0 cfg < 3"
  shows "simulate cfg (idle_schedule (nat (max_instances cfg))) =
      Some ((init cfg)\<lparr>pcs := replicate (nat (max_instances cfg)) Stopped, mon := MStopped\<rparr>) \<and>
    (\<forall>sched s. exec cfg sched (init cfg) = Some s \<longrightarrow>
       tank_queue s = tanks0 cfg \<and> healer_queue s = healers0 cfg \<and> dps_queue s = dps0 cfg \<and>
       instances s = replicate (nat (max_instances cfg)) new_instance \<and>
       total_parties s = 0 \<and>
       (\<forall>i < length (pcs s). before_check (pcs s ! i) \<and>
          steps_of i sched = first_pass_steps (pcs s ! i) \<and>
          (pcs s ! i = Wait39 \<longrightarrow> step cfg (Work i) s = Some (goto i Check45 s)) \<and>
          (pcs s ! i = Check45 \<longrightarrow>
             step cfg (Work i) s = Some (goto i Stopped (s\<lparr>mtx := None\<rparr>)))))"
proof -
  from assms have n0: "no_more_parties (init cfg)"
    by (simp add: no_more_parties_def init_def)
  have "tank_queue s = tanks0 cfg \<and> healer_queue s = healers0 cfg \<and> dps_queue s = dps0 cfg \<and>
       instances s = replicate (nat (max_instances cfg)) new_instance \<and>
       total_parties s = 0 \<and>
       (\<forall>i < length (pcs s). before_check (pcs s ! i) \<and>
          steps_of i sched = first_pass_steps (pcs s ! i) \<and>
          (pcs s ! i = Wait39 \<longrightarrow> step cfg (Work i) s = Some (goto i Check45 s)) \<and>
          (pcs s ! i = Check45 \<longrightarrow>
             step cfg (Work i) s = Some (goto i Stopped (s\<lparr>mtx := None\<rparr>))))"
    if e: "exec cfg sched (init cfg) = Some s" for sched s
  proof -
    from untouched_exec[OF n0 e] have u: "untouched cfg s" .
    with n0 have n: "no_more_parties s" by (simp add: untouched_no_more_parties)
    from u have "total_parties s = 0"
      by (simp add: untouched_def total_parties_def new_instance_def sum_list_replicate_zero)
    with u n first_pass_exec[OF n0 e] show ?thesis
      by (simp add: untouched_def step_def work_def wait_pred_def)
  qed
  with idle_run[OF n0] show ?thesis by blast
qed

theorem exhausted_from_start_witness:
  "(tanks0 scenario_C = 0 \<or> healers0 scenario_C = 0 \<or> dps0 scenario_C < 3) \<and>
   simulate scenario_C schedule_C = Some state_C_end \<and>
   exec scenario_C (take 2 schedule_C) (init scenario_C) = Some state_C_2 \<and>
   tank_queue state_C_2 = 0 \<and> healer_queue state_C_2 = 5 \<and> dps_queue state_C_2 = 10 \<and>
   total_parties state_C_2 = 0 \<and>
   steps_of 0 (take 2 schedule_C) = first_pass_steps (pcs state_C_2 ! 0) \<and>
   step scenario_C (Work 0) state_C_2 = Some (goto 0 Stopped (state_C_2\<lparr>mtx := None\<rparr>)) \<and>
   (tanks0 scenario_D = 0 \<or> healers0 scenario_D = 0 \<or> dps0 scenario_D < 3) \<and>
   simulate scenario_D [Work 0, Work 0, Work 0, Observe, Observe] =
     Some \<lparr>tank_queue = 1, healer_queue = 1, dps_queue = 2, instances = [new_instance],
            mtx = None, pcs = [Stopped], mon = MStopped, notifications = 0\<rparr>"
proof -
  have c: "tanks0 scenario_C = 0 \<or> healers0 scenario_C = 0 \<or> dps0 scenario_C < 3"
    and d: "tanks0 scenario_D = 0 \<or> healers0 scenario_D = 0 \<or> dps0 scenario_D < 3"
    by code_simp+
  have sc: "idle_schedule (nat (max_instances scenario_C)) = schedule_C"
    and ic: "(init scenario_C)\<lparr>pcs := replicate (nat (max_instances scenario_C)) Stopped,
        mon := MStopped\<rparr> = state_C_end"
    and sd: "idle_schedule (nat (max_instances scenario_D)) = [Work 0, Work 0, Work 0, Observe, Observe]"
    and id: "(init scenario_D)\<lparr>pcs := replicate (nat (max_instances scenario_D)) Stopped,
        mon := MStopped\<rparr> = \<lparr>tank_queue = 1, healer_queue = 1, dps_queue = 2,
        instances = [new_instance], mtx = None, pcs = [Stopped], mon = MStopped, notifications = 0\<rparr>"
    by code_simp+
  have e: "exec scenario_C (take 2 schedule_C) (init scenario_C) = Some state_C_2"
    and i: "0 < length (pcs state_C_2)" and p: "pcs state_C_2 ! 0 = Check45"
    and v: "tanks0 scenario_C = 0" "healers0 scenario_C = 5" "dps0 scenario_C = 10"
    by code_simp+
  from exhausted_from_start[OF c] sc ic
  have 1: "simulate scenario_C schedule_C = Some state_C_end" by simp
  from exhausted_from_start[OF c] e i p v
  have 2: "tank_queue state_C_2 = 0 \<and> healer_queue state_C_2 = 5 \<and> dps_queue state_C_2 = 10 \<and>
    total_parties state_C_2 = 0 \<and>
    steps_of 0 (take 2 schedule_C) = first_pass_steps (pcs state_C_2 ! 0) \<and>
    step scenario_C (Work 0) state_C_2 = Some (goto 0 Stopped (state_C_2\<lparr>mtx := None\<rparr>))"
    by fastforce
  from exhausted_from_start[OF d] sd id
  have 3: "simulate scenario_D [Work 0, Work 0, Work 0, Observe, Observe] =
     Some \<lparr>tank_queue = 1, healer_queue = 1, dps_queue = 2, instances = [new_instance],
            mtx = None, pcs = [Stopped], mon = MStopped, notifications = 0\<rparr>" by simp
  from c d e 1 2 3 show ?thesis by blast
qed

end
